theory Spec2Isabelle
  imports Main
begin

section \<open>Exceptions and results\<close>

text \<open>
  The Python exceptions that the session manager in \<^verbatim>\<open>python/qemu/aqmp/protocol.py\<close>
  tells apart. The code asks three questions of an exception object: whether it is an
  \<^verbatim>\<open>asyncio.CancelledError\<close>, whether it is an \<^verbatim>\<open>Exception\<close>, and whether it \<^emph>\<open>is\<close> (object
  identity) another exception. An exception raised by a collaborator carries a number that
  stands for the identity of the object, so that \<^verbatim>\<open>a is b\<close> is equality of the values.
  The class hierarchy is that of Python 3.8 and later, where \<^verbatim>\<open>CancelledError\<close> derives from
  \<^verbatim>\<open>BaseException\<close> and not from \<^verbatim>\<open>Exception\<close>.
\<close>

datatype exn =
    CancelledError
  | Exception nat
  | BaseException nat
  | AssertionError
  | ValueError
  | AttributeError
  | ConnectError string exn

fun is_CancelledError :: "exn \<Rightarrow> bool" where
  "is_CancelledError CancelledError = True"
| "is_CancelledError _ = False"

fun is_Exception :: "exn \<Rightarrow> bool" where
  "is_Exception CancelledError = False"
| "is_Exception (BaseException _) = False"
| "is_Exception _ = True"

datatype 'a result = Return 'a | Raise exn

section \<open>The collaborators: transport, queue, event loop\<close>

text \<open>
  Every call that leaves the session manager is written to a log, in the order in which the
  code makes it. The outcome of a call that waits for the outside world (sending, draining,
  closing, opening a connection) is supplied by an environment record.
\<close>

datatype 'm event =
    OpenConnection
  | QueueGet 'm
  | DoSend 'm
  | QueueTaskDone
  | SetWriteBufferLimits nat nat
  | Drain
  | Cancel nat
  | Wait nat
  | Close
  | WaitClosed

text \<open>
  The part of an \<^verbatim>\<open>asyncio.StreamWriter\<close> and its transport that the code reads or writes:
  the write-buffer limits (low-water and high-water mark) and whether the transport is closing.
\<close>

record stream_writer =
  limit_low :: nat
  limit_high :: nat
  closing :: bool

datatype stream_reader = StreamReader

text \<open>
  \<^verbatim>\<open>transport.get_write_buffer_limits()\<close> returns the pair (low, high);
  \<^verbatim>\<open>transport.set_write_buffer_limits(high, low)\<close> takes the high-water mark first and raises
  \<^verbatim>\<open>ValueError\<close> unless \<^verbatim>\<open>high >= low >= 0\<close>.
\<close>

definition get_write_buffer_limits :: "stream_writer \<Rightarrow> nat \<times> nat" where
  "get_write_buffer_limits w = (limit_low w, limit_high w)"

definition set_write_buffer_limits ::
  "nat \<Rightarrow> nat \<Rightarrow> stream_writer \<Rightarrow> 'm event list \<Rightarrow> unit result \<times> stream_writer \<times> 'm event list" where
  "set_write_buffer_limits high low w tr =
     (if low \<le> high
      then (Return (), w\<lparr>limit_low := low, limit_high := high\<rparr>, tr @ [SetWriteBufferLimits high low])
      else (Raise ValueError, w, tr @ [SetWriteBufferLimits high low]))"

text \<open>
  \<^verbatim>\<open>writer.drain()\<close>: the outcome is the environment's, and may depend on the state of the
  writer at the moment of the call (in particular on its limits).
\<close>

definition writer_drain ::
  "(stream_writer \<Rightarrow> unit result) \<Rightarrow> stream_writer \<Rightarrow> 'm event list \<Rightarrow> unit result \<times> stream_writer \<times> 'm event list" where
  "writer_drain drain w tr = (drain w, w, tr @ [Drain])"

text \<open>
  \<^verbatim>\<open>util.flush\<close>:
  \<^verbatim>\<open>
    low, high = transport.get_write_buffer_limits()
    transport.set_write_buffer_limits(0, 0)
    try:
        await writer.drain()
    finally:
        transport.set_write_buffer_limits(high, low)
  \<close>
\<close>

definition flush ::
  "(stream_writer \<Rightarrow> unit result) \<Rightarrow> stream_writer \<Rightarrow> 'm event list \<Rightarrow> unit result \<times> stream_writer \<times> 'm event list" where
  "flush drain w tr =
     (case get_write_buffer_limits w of (low, high) \<Rightarrow>
        (case set_write_buffer_limits 0 0 w tr of
           (Raise e, w1, tr1) \<Rightarrow> (Raise e, w1, tr1)
         | (Return _, w1, tr1) \<Rightarrow>
             (case writer_drain drain w1 tr1 of (r, w2, tr2) \<Rightarrow>
                (case set_write_buffer_limits high low w2 tr2 of
                   (Raise e, w3, tr3) \<Rightarrow> (Raise e, w3, tr3)
                 | (Return _, w3, tr3) \<Rightarrow> (r, w3, tr3)))))"

text \<open>
  \<^verbatim>\<open>asyncio.Queue\<close>: the waiting items and the count of items that were put and are not yet
  marked done. \<^verbatim>\<open>task_done()\<close> raises \<^verbatim>\<open>ValueError\<close> when the count is already zero.
\<close>

record 'm queue =
  items :: "'m list"
  unfinished_tasks :: nat

definition queue_task_done :: "'m queue \<Rightarrow> unit result \<times> 'm queue" where
  "queue_task_done q =
     (if unfinished_tasks q = 0 then (Raise ValueError, q)
      else (Return (), q\<lparr>unfinished_tasks := unfinished_tasks q - 1\<rparr>))"

text \<open>
  The futures of the event loop live in a store, addressed by number; the handles of the
  session are addresses. A task runs one of the two coroutines the session spawns and is
  pending or done; a done task keeps the time at which it finished and its outcome (a
  cancelled task is one whose outcome is \<open>Raise CancelledError\<close>). The future made by
  \<^verbatim>\<open>asyncio.gather(a, b)\<close> has no state of its own: it is done as soon as one child has
  raised, with the exception of the child that raised first, or when both have returned.
\<close>

datatype coro = BhDisconnect | BhLoopForever

datatype status = Pending | Done nat "unit result"

datatype future = Task coro status | Gather nat nat

fun child_result :: "future \<Rightarrow> (nat \<times> unit result) option" where
  "child_result (Task c Pending) = None"
| "child_result (Task c (Done k r)) = Some (k, r)"
| "child_result (Gather a b) = None"

fun gather_outcome ::
  "(nat \<times> unit result) option \<Rightarrow> (nat \<times> unit result) option \<Rightarrow> unit result option" where
  "gather_outcome (Some (j, Raise e)) (Some (k, Raise f)) = Some (if j \<le> k then Raise e else Raise f)"
| "gather_outcome (Some (j, Raise e)) (Some (k, Return _)) = Some (Raise e)"
| "gather_outcome (Some (j, Raise e)) None = Some (Raise e)"
| "gather_outcome (Some (j, Return _)) (Some (k, Raise f)) = Some (Raise f)"
| "gather_outcome None (Some (k, Raise f)) = Some (Raise f)"
| "gather_outcome (Some (j, Return _)) (Some (k, Return _)) = Some (Return ())"
| "gather_outcome (Some (j, Return _)) None = None"
| "gather_outcome None (Some (k, Return _)) = None"
| "gather_outcome None None = None"

definition outcome :: "(nat \<Rightarrow> future) \<Rightarrow> nat \<Rightarrow> unit result option" where
  "outcome fs t =
     (case fs t of
        Task c Pending \<Rightarrow> None
      | Task c (Done k r) \<Rightarrow> Some r
      | Gather a b \<Rightarrow> gather_outcome (child_result (fs a)) (child_result (fs b)))"

text \<open>\<^verbatim>\<open>task.done()\<close>\<close>

definition future_done :: "(nat \<Rightarrow> future) \<Rightarrow> nat \<Rightarrow> bool" where
  "future_done fs t = (outcome fs t \<noteq> None)"

section \<open>The session\<close>

text \<open>
  The fields of \<^verbatim>\<open>AsyncProtocol\<close>, as \<^verbatim>\<open>__init__\<close> declares them, followed by the state of the
  collaborators: the store of futures with its next free address, the clock that stamps a
  task when it finishes, and the log of calls. \<^verbatim>\<open>_outgoing\<close> is declared without a value, so
  it is absent until a session is established.
\<close>

record 'm session =
  reader :: "stream_reader option"
  writer :: "stream_writer option"
  outgoing :: "'m queue option"
  reader_task :: "nat option"
  writer_task :: "nat option"
  bh_tasks :: "nat option"
  dc_task :: "nat option"
  futures :: "nat \<Rightarrow> future"
  next_future :: nat
  clock :: nat
  trace :: "'m event list"

text \<open>\<^verbatim>\<open>AsyncProtocol.__init__\<close> on a fresh event loop.\<close>

definition init :: "'m session" where
  "init = \<lparr>reader = None, writer = None, outgoing = None,
           reader_task = None, writer_task = None, bh_tasks = None, dc_task = None,
           futures = (\<lambda>_. Task BhLoopForever Pending), next_future = 0, clock = 0, trace = []\<rparr>"

text \<open>\<^verbatim>\<open>util.create_task\<close> and \<^verbatim>\<open>asyncio.gather\<close>: a new future at the next free address.\<close>

definition new_future :: "future \<Rightarrow> 'm session \<Rightarrow> nat \<times> 'm session" where
  "new_future f s =
     (next_future s,
      s\<lparr>futures := (futures s)(next_future s := f), next_future := Suc (next_future s)\<rparr>)"

definition create_task :: "coro \<Rightarrow> 'm session \<Rightarrow> nat \<times> 'm session" where
  "create_task c s = new_future (Task c Pending) s"

text \<open>A pending task finishes: it is stamped with the clock, which then advances.\<close>

definition finish :: "nat \<Rightarrow> unit result \<Rightarrow> 'm session \<Rightarrow> 'm session" where
  "finish t r s =
     (case futures s t of
        Task c Pending \<Rightarrow> s\<lparr>futures := (futures s)(t := Task c (Done (clock s) r)), clock := Suc (clock s)\<rparr>
      | _ \<Rightarrow> s)"

text \<open>
  \<^verbatim>\<open>_schedule_disconnect\<close>:
  \<^verbatim>\<open>
    if not self._dc_task:
        self._dc_task = create_task(self._bh_disconnect())
  \<close>
\<close>

definition schedule_disconnect :: "'m session \<Rightarrow> 'm session" where
  "schedule_disconnect s =
     (if dc_task s = None
      then (case create_task BhDisconnect s of (t, s1) \<Rightarrow> s1\<lparr>dc_task := Some t\<rparr>)
      else s)"

text \<open>
  The helpers nested in \<^verbatim>\<open>_cleanup\<close> and \<^verbatim>\<open>_bh_disconnect\<close>:
  \<^verbatim>\<open>
    def _paranoid_task_erase(task):
        assert (task is None) or task.done()
        return None if (task and task.done()) else task

    def _done(task):
        return task is not None and task.done()
  \<close>
\<close>

definition handle_done :: "(nat \<Rightarrow> future) \<Rightarrow> nat option \<Rightarrow> bool" where
  "handle_done fs task = (case task of None \<Rightarrow> False | Some t \<Rightarrow> future_done fs t)"

definition paranoid_task_erase :: "(nat \<Rightarrow> future) \<Rightarrow> nat option \<Rightarrow> nat option result" where
  "paranoid_task_erase fs task =
     (if \<not> (task = None \<or> future_done fs (the task)) then Raise AssertionError
      else Return (if handle_done fs task then None else task))"

text \<open>
  \<^verbatim>\<open>_cleanup\<close>:
  \<^verbatim>\<open>
    self._dc_task = _paranoid_task_erase(self._dc_task)
    self._reader_task = _paranoid_task_erase(self._reader_task)
    self._writer_task = _paranoid_task_erase(self._writer_task)
    self._bh_tasks = _paranoid_task_erase(self._bh_tasks)
    self._reader = None
    self._writer = None
  \<close>
  A failed assertion leaves the assignments before it done and the rest undone.
\<close>

definition cleanup :: "'m session \<Rightarrow> unit result \<times> 'm session" where
  "cleanup s =
     (case paranoid_task_erase (futures s) (dc_task s) of
        Raise e \<Rightarrow> (Raise e, s)
      | Return d \<Rightarrow>
     (case paranoid_task_erase (futures s) (reader_task s) of
        Raise e \<Rightarrow> (Raise e, s\<lparr>dc_task := d\<rparr>)
      | Return r \<Rightarrow>
     (case paranoid_task_erase (futures s) (writer_task s) of
        Raise e \<Rightarrow> (Raise e, s\<lparr>dc_task := d, reader_task := r\<rparr>)
      | Return w \<Rightarrow>
     (case paranoid_task_erase (futures s) (bh_tasks s) of
        Raise e \<Rightarrow> (Raise e, s\<lparr>dc_task := d, reader_task := r, writer_task := w\<rparr>)
      | Return b \<Rightarrow>
          (Return (), s\<lparr>dc_task := d, reader_task := r, writer_task := w, bh_tasks := b,
                        reader := None, writer := None\<rparr>)))))"

text \<open>The state that \<^verbatim>\<open>__init__\<close> and a complete \<^verbatim>\<open>_cleanup\<close> leave: no transport, no task handle.\<close>

definition idle :: "'m session \<Rightarrow> bool" where
  "idle s \<longleftrightarrow> reader s = None \<and> writer s = None \<and> reader_task s = None \<and> writer_task s = None
     \<and> bh_tasks s = None \<and> dc_task s = None"

section \<open>The environment\<close>

text \<open>
  What the session manager leaves to others: opening the connection, the abstract methods
  \<^verbatim>\<open>_do_recv\<close> and \<^verbatim>\<open>_do_send\<close> and the hook \<^verbatim>\<open>_on_message\<close> of the protocol built on it, what a
  protocol adds before and after the base \<^verbatim>\<open>_establish_session\<close> (the class documents this
  way of extending it), and the outcomes of draining and of waiting for the stream to close.
  The receive primitive sees the log so far, and answers \<open>None\<close> when nothing ever arrives.
\<close>

datatype address = TcpAddress string nat | UnixPath string

datatype ssl_context = SSLContext

record 'm env =
  open_connection :: "string \<Rightarrow> nat \<Rightarrow> ssl_context option \<Rightarrow> (stream_reader \<times> stream_writer) result"
  open_unix_connection :: "string \<Rightarrow> ssl_context option \<Rightarrow> (stream_reader \<times> stream_writer) result"
  before_session :: "unit result"
  after_session :: "unit result"
  do_recv :: "'m event list \<Rightarrow> 'm result option"
  on_message :: "'m \<Rightarrow> unit result"
  do_send :: "'m \<Rightarrow> unit result"
  drain :: "stream_writer \<Rightarrow> unit result"
  wait_closed_outcome :: "unit result"

section \<open>Bottom half: the loops\<close>

text \<open>\<^verbatim>\<open>_send\<close> calls \<^verbatim>\<open>_do_send\<close>; \<^verbatim>\<open>self._outgoing.task_done()\<close> on the session's queue.\<close>

definition send :: "'m env \<Rightarrow> 'm \<Rightarrow> 'm session \<Rightarrow> unit result \<times> 'm session" where
  "send env msg s = (do_send env msg, s\<lparr>trace := trace s @ [DoSend msg]\<rparr>)"

definition outgoing_task_done :: "'m session \<Rightarrow> unit result \<times> 'm session" where
  "outgoing_task_done s =
     (case outgoing s of
        None \<Rightarrow> (Raise AttributeError, s)
      | Some q \<Rightarrow>
          (case queue_task_done q of
             (r, q1) \<Rightarrow> (r, s\<lparr>outgoing := Some q1, trace := trace s @ [QueueTaskDone]\<rparr>)))"

text \<open>
  \<^verbatim>\<open>_bh_send_message\<close>:
  \<^verbatim>\<open>
    msg = await self._outgoing.get()
    try:
        await self._send(msg)
    finally:
        self._outgoing.task_done()
  \<close>
  \<open>None\<close>: the queue is empty and \<^verbatim>\<open>get()\<close> stays suspended.
\<close>

definition bh_send_message :: "'m env \<Rightarrow> 'm session \<Rightarrow> (unit result \<times> 'm session) option" where
  "bh_send_message env s =
     (case outgoing s of
        None \<Rightarrow> Some (Raise AttributeError, s)
      | Some q \<Rightarrow>
          (case items q of
             [] \<Rightarrow> None
           | msg # rest \<Rightarrow>
               (case send env msg (s\<lparr>outgoing := Some (q\<lparr>items := rest\<rparr>),
                                      trace := trace s @ [QueueGet msg]\<rparr>) of
                  (r, s1) \<Rightarrow>
                    (case outgoing_task_done s1 of
                       (Raise e, s2) \<Rightarrow> Some (Raise e, s2)
                     | (Return _, s2) \<Rightarrow> Some (r, s2)))))"

text \<open>
  \<^verbatim>\<open>_bh_recv_message\<close>:
  \<^verbatim>\<open>
    msg = await self._recv()
    await self._on_message(msg)
  \<close>
\<close>

definition bh_recv_message :: "'m env \<Rightarrow> 'm session \<Rightarrow> (unit result \<times> 'm session) option" where
  "bh_recv_message env s =
     (case do_recv env (trace s) of
        None \<Rightarrow> None
      | Some (Raise e) \<Rightarrow> Some (Raise e, s)
      | Some (Return msg) \<Rightarrow> Some (on_message env msg, s))"

text \<open>
  \<^verbatim>\<open>_bh_loop_forever\<close>:
  \<^verbatim>\<open>
    try:
        while True:
            await async_fn()
    except asyncio.CancelledError:
        return
    except BaseException:
        self._schedule_disconnect()
        raise
  \<close>
  \<open>while_true\<close> is the loop: it ends with the first exception of an iteration, and does
  not end while the iterations return, or when one of them stays suspended. \<open>loop_exit\<close>
  is the pair of handlers.
\<close>

partial_function (option) while_true ::
  "('s \<Rightarrow> (unit result \<times> 's) option) \<Rightarrow> 's \<Rightarrow> (exn \<times> 's) option" where
  "while_true async_fn s =
     (case async_fn s of
        None \<Rightarrow> None
      | Some (Return _, s1) \<Rightarrow> while_true async_fn s1
      | Some (Raise e, s1) \<Rightarrow> Some (e, s1))"

definition loop_exit :: "exn \<Rightarrow> 'm session \<Rightarrow> unit result \<times> 'm session" where
  "loop_exit e s =
     (if is_CancelledError e then (Return (), s)
      else (Raise e, schedule_disconnect s))"

definition bh_loop_forever ::
  "('m session \<Rightarrow> (unit result \<times> 'm session) option) \<Rightarrow> 'm session \<Rightarrow> (unit result \<times> 'm session) option" where
  "bh_loop_forever async_fn s =
     (case while_true async_fn s of
        None \<Rightarrow> None
      | Some (e, s1) \<Rightarrow> Some (loop_exit e s1))"

text \<open>
  The task that runs a loop is done when the loop exits, with the loop's outcome.
\<close>

definition loop_task_exit :: "nat \<Rightarrow> exn \<Rightarrow> 'm session \<Rightarrow> 'm session" where
  "loop_task_exit t e s = (case loop_exit e s of (r, s1) \<Rightarrow> finish t r s1)"

text \<open>
  \<^verbatim>\<open>task.cancel()\<close> followed by \<^verbatim>\<open>await asyncio.wait((task,))\<close>. Cancelling a done task does
  nothing. A pending task receives \<^verbatim>\<open>CancelledError\<close> at the point where it is suspended: a
  loop task handles it as its loop does, the disconnect task ends cancelled. Waiting never
  raises the task's exception.
\<close>

definition cancel_and_wait :: "nat \<Rightarrow> 'm session \<Rightarrow> 'm session" where
  "cancel_and_wait t s =
     (case (case futures s t of
              Task BhLoopForever Pending \<Rightarrow> loop_task_exit t CancelledError (s\<lparr>trace := trace s @ [Cancel t]\<rparr>)
            | Task BhDisconnect Pending \<Rightarrow> finish t (Raise CancelledError) (s\<lparr>trace := trace s @ [Cancel t]\<rparr>)
            | _ \<Rightarrow> s\<lparr>trace := trace s @ [Cancel t]\<rparr>) of
        s1 \<Rightarrow> s1\<lparr>trace := trace s1 @ [Wait t]\<rparr>)"

section \<open>Bottom half: the disconnect task\<close>

text \<open>
  \<^verbatim>\<open>await self._outgoing.join()\<close> returns once every item put on the queue is marked done.
  While the disconnect task waits there, the writer task is the one consumer of the queue:
  it runs iterations of its loop. If the writer task is absent or done and items are left,
  nobody marks them, and the wait does not end (\<open>None\<close>).
\<close>

definition queued :: "'m session \<Rightarrow> 'm list" where
  "queued s = (case outgoing s of None \<Rightarrow> [] | Some q \<Rightarrow> items q)"

function outgoing_join :: "'m env \<Rightarrow> 'm session \<Rightarrow> (unit result \<times> 'm session) option" where
  "outgoing_join env s =
     (case outgoing s of
        None \<Rightarrow> Some (Raise AttributeError, s)
      | Some q \<Rightarrow>
          if unfinished_tasks q = 0 then Some (Return (), s)
          else (case writer_task s of
                  None \<Rightarrow> None
                | Some t \<Rightarrow>
                    if future_done (futures s) t then None
                    else (case bh_send_message env s of
                            None \<Rightarrow> None
                          | Some (Return _, s1) \<Rightarrow> outgoing_join env s1
                          | Some (Raise e, s1) \<Rightarrow> outgoing_join env (loop_task_exit t e s1))))"
  by pat_completeness auto
termination
  by (relation "measure (\<lambda>(env, s). length (queued s))")
     (auto simp: bh_send_message_def queued_def send_def outgoing_task_done_def queue_task_done_def
                 loop_task_exit_def loop_exit_def finish_def schedule_disconnect_def create_task_def
                 new_future_def
           split: option.splits list.splits prod.splits result.splits if_splits future.splits
                  status.splits)

text \<open>
  \<^verbatim>\<open>_bh_stop_writer\<close>:
  \<^verbatim>\<open>
    if not self._writer_task or self._writer_task.done():
        return
    if not force:
        await self._outgoing.join()
        if self._writer is not None:
            await flush(self._writer)
    self._writer_task.cancel()
    await asyncio.wait((self._writer_task,))
  \<close>
\<close>

definition flush_writer :: "'m env \<Rightarrow> 'm session \<Rightarrow> unit result \<times> 'm session" where
  "flush_writer env s =
     (case writer s of
        None \<Rightarrow> (Return (), s)
      | Some w \<Rightarrow>
          (case flush (drain env) w (trace s) of
             (r, w1, tr1) \<Rightarrow> (r, s\<lparr>writer := Some w1, trace := tr1\<rparr>)))"

definition bh_stop_writer :: "'m env \<Rightarrow> bool \<Rightarrow> 'm session \<Rightarrow> (unit result \<times> 'm session) option" where
  "bh_stop_writer env force s =
     (case writer_task s of
        None \<Rightarrow> Some (Return (), s)
      | Some t \<Rightarrow>
          if future_done (futures s) t then Some (Return (), s)
          else if \<not> force then
            (case outgoing_join env s of
               None \<Rightarrow> None
             | Some (Raise e, s1) \<Rightarrow> Some (Raise e, s1)
             | Some (Return _, s1) \<Rightarrow>
                 (case flush_writer env s1 of
                    (Raise e, s2) \<Rightarrow> Some (Raise e, s2)
                  | (Return _, s2) \<Rightarrow> Some (Return (), cancel_and_wait t s2)))
          else Some (Return (), cancel_and_wait t s))"

text \<open>
  \<^verbatim>\<open>_bh_stop_reader\<close>:
  \<^verbatim>\<open>
    if not self._reader_task or self._reader_task.done():
        return
    self._reader_task.cancel()
    await asyncio.wait((self._reader_task,))
  \<close>
\<close>

definition bh_stop_reader :: "'m session \<Rightarrow> unit result \<times> 'm session" where
  "bh_stop_reader s =
     (case reader_task s of
        None \<Rightarrow> (Return (), s)
      | Some t \<Rightarrow>
          if future_done (futures s) t then (Return (), s)
          else (Return (), cancel_and_wait t s))"

text \<open>
  The helper nested in \<^verbatim>\<open>_bh_disconnect\<close>:
  \<^verbatim>\<open>
    def _exception(task):
        if task is None or not task.done():
            return None
        return task.exception()
  \<close>
  \<^verbatim>\<open>task.exception()\<close> returns the exception of the task, or \<^verbatim>\<open>None\<close> when the task returned,
  and raises \<^verbatim>\<open>CancelledError\<close> when the task was cancelled.
\<close>

definition exception_of :: "(nat \<Rightarrow> future) \<Rightarrow> nat option \<Rightarrow> exn option result" where
  "exception_of fs task =
     (if task = None \<or> \<not> future_done fs (the task) then Return None
      else (case outcome fs (the task) of
              Some (Raise e) \<Rightarrow> (if is_CancelledError e then Raise CancelledError else Return (Some e))
            | _ \<Rightarrow> Return None))"

text \<open>
  The last part of \<^verbatim>\<open>_bh_disconnect\<close>, with \<^verbatim>\<open>util.is_closing\<close> and \<^verbatim>\<open>util.wait_closed\<close> as they
  are on Python 3.7 and later, where they call the methods of the \<^verbatim>\<open>StreamWriter\<close>:
  \<^verbatim>\<open>
    if self._writer:
        if not is_closing(self._writer):
            self._writer.close()
        try:
            await wait_closed(self._writer)
        except Exception as err:
            if all((err is not _exception(task) for task in (
                    self._reader_task, self._writer_task))):
                raise
  \<close>
  \<^verbatim>\<open>all\<close> stops at the first task whose exception is \<^verbatim>\<open>err\<close>.
\<close>

definition is_closing :: "stream_writer \<Rightarrow> bool" where
  "is_closing w = closing w"

definition writer_close :: "'m session \<Rightarrow> 'm session" where
  "writer_close s =
     (case writer s of
        None \<Rightarrow> s
      | Some w \<Rightarrow> s\<lparr>writer := Some (w\<lparr>closing := True\<rparr>), trace := trace s @ [Close]\<rparr>)"

definition wait_closed :: "'m env \<Rightarrow> 'm session \<Rightarrow> unit result \<times> 'm session" where
  "wait_closed env s = (wait_closed_outcome env, s\<lparr>trace := trace s @ [WaitClosed]\<rparr>)"

definition close_stream :: "'m env \<Rightarrow> 'm session \<Rightarrow> unit result \<times> 'm session" where
  "close_stream env s =
     (case writer s of
        None \<Rightarrow> (Return (), s)
      | Some w \<Rightarrow>
          (case wait_closed env (if \<not> is_closing w then writer_close s else s) of
             (Return _, s1) \<Rightarrow> (Return (), s1)
           | (Raise err, s1) \<Rightarrow>
               if is_Exception err then
                 (case exception_of (futures s1) (reader_task s1) of
                    Raise e \<Rightarrow> (Raise e, s1)
                  | Return x \<Rightarrow>
                      if x = Some err then (Return (), s1)
                      else (case exception_of (futures s1) (writer_task s1) of
                              Raise e \<Rightarrow> (Raise e, s1)
                            | Return y \<Rightarrow>
                                if y = Some err then (Return (), s1) else (Raise err, s1)))
               else (Raise err, s1)))"

text \<open>
  \<^verbatim>\<open>_bh_disconnect\<close>:
  \<^verbatim>\<open>
    error_pathway = _done(self._reader_task) or _done(self._writer_task)
    await self._bh_stop_writer(error_pathway)
    await self._bh_stop_reader()
  \<close>
  and then the closing of the stream.
\<close>

definition error_pathway :: "'m session \<Rightarrow> bool" where
  "error_pathway s \<longleftrightarrow>
     handle_done (futures s) (reader_task s) \<or> handle_done (futures s) (writer_task s)"

definition bh_disconnect :: "'m env \<Rightarrow> 'm session \<Rightarrow> (unit result \<times> 'm session) option" where
  "bh_disconnect env s =
     (case bh_stop_writer env (error_pathway s) s of
        None \<Rightarrow> None
      | Some (Raise e, s1) \<Rightarrow> Some (Raise e, s1)
      | Some (Return _, s1) \<Rightarrow>
          (case bh_stop_reader s1 of
             (Raise e, s2) \<Rightarrow> Some (Raise e, s2)
           | (Return _, s2) \<Rightarrow> Some (close_stream env s2)))"

section \<open>Upper half\<close>

text \<open>
  \<^verbatim>\<open>await task\<close>, seen from the caller. A done future gives its outcome. A pending disconnect
  task runs \<^verbatim>\<open>_bh_disconnect\<close> now and is done with its outcome. Nothing else ends a pending
  loop task or the gathering of two loops that have not ended, and the caller stays suspended
  (\<open>None\<close>).
\<close>

definition await_future :: "'m env \<Rightarrow> nat \<Rightarrow> 'm session \<Rightarrow> (unit result \<times> 'm session) option" where
  "await_future env t s =
     (case futures s t of
        Task BhDisconnect Pending \<Rightarrow>
          (case bh_disconnect env s of
             None \<Rightarrow> None
           | Some (r, s1) \<Rightarrow> Some (r, finish t r s1))
      | _ \<Rightarrow>
          (case outcome (futures s) t of
             None \<Rightarrow> None
           | Some r \<Rightarrow> Some (r, s)))"

text \<open>
  \<^verbatim>\<open>_wait_disconnect\<close>:
  \<^verbatim>\<open>
    assert self._dc_task
    try:
        await self._dc_task
        if self._bh_tasks:
            await self._bh_tasks
    finally:
        self._cleanup()
  \<close>
\<close>

definition wait_disconnect :: "'m env \<Rightarrow> 'm session \<Rightarrow> (unit result \<times> 'm session) option" where
  "wait_disconnect env s =
     (case dc_task s of
        None \<Rightarrow> Some (Raise AssertionError, s)
      | Some d \<Rightarrow>
          (case (case await_future env d s of
                   None \<Rightarrow> None
                 | Some (Raise e, s1) \<Rightarrow> Some (Raise e, s1)
                 | Some (Return _, s1) \<Rightarrow>
                     (case bh_tasks s1 of
                        None \<Rightarrow> Some (Return (), s1)
                      | Some b \<Rightarrow> await_future env b s1)) of
             None \<Rightarrow> None
           | Some (r, s2) \<Rightarrow>
               (case cleanup s2 of
                  (Raise e, s3) \<Rightarrow> Some (Raise e, s3)
                | (Return _, s3) \<Rightarrow> Some (r, s3))))"

text \<open>
  \<^verbatim>\<open>disconnect\<close>:
  \<^verbatim>\<open>
    self._schedule_disconnect()
    await self._wait_disconnect()
  \<close>
\<close>

definition disconnect :: "'m env \<Rightarrow> 'm session \<Rightarrow> (unit result \<times> 'm session) option" where
  "disconnect env s = wait_disconnect env (schedule_disconnect s)"

text \<open>
  \<^verbatim>\<open>_do_connect\<close> (called by \<^verbatim>\<open>_establish_connection\<close>):
  \<^verbatim>\<open>
    if isinstance(address, tuple):
        connect = asyncio.open_connection(address[0], address[1], ssl=ssl)
    else:
        connect = asyncio.open_unix_connection(path=address, ssl=ssl)
    self._reader, self._writer = await connect
  \<close>
\<close>

definition do_connect ::
  "'m env \<Rightarrow> address \<Rightarrow> ssl_context option \<Rightarrow> 'm session \<Rightarrow> unit result \<times> 'm session" where
  "do_connect env addr ssl s =
     (case (case addr of
              TcpAddress host port \<Rightarrow> open_connection env host port ssl
            | UnixPath path \<Rightarrow> open_unix_connection env path ssl) of
        Raise e \<Rightarrow> (Raise e, s\<lparr>trace := trace s @ [OpenConnection]\<rparr>)
      | Return (r, w) \<Rightarrow>
          (Return (), s\<lparr>reader := Some r, writer := Some w, trace := trace s @ [OpenConnection]\<rparr>))"

definition establish_connection ::
  "'m env \<Rightarrow> address \<Rightarrow> ssl_context option \<Rightarrow> 'm session \<Rightarrow> unit result \<times> 'm session" where
  "establish_connection env addr ssl s = do_connect env addr ssl s"

text \<open>
  \<^verbatim>\<open>_establish_session\<close> of the base class:
  \<^verbatim>\<open>
    self._outgoing = asyncio.Queue()
    reader_coro = self._bh_loop_forever(self._bh_recv_message)
    writer_coro = self._bh_loop_forever(self._bh_send_message)
    self._reader_task = create_task(reader_coro)
    self._writer_task = create_task(writer_coro)
    self._bh_tasks = asyncio.gather(self._reader_task, self._writer_task)
  \<close>
\<close>

definition base_establish_session :: "'m session \<Rightarrow> 'm session" where
  "base_establish_session s =
     (case create_task BhLoopForever (s\<lparr>outgoing := Some \<lparr>items = [], unfinished_tasks = 0\<rparr>\<rparr>) of
        (r, s1) \<Rightarrow>
          (case create_task BhLoopForever (s1\<lparr>reader_task := Some r\<rparr>) of
             (w, s2) \<Rightarrow>
               (case new_future (Gather r w) (s2\<lparr>writer_task := Some w\<rparr>) of
                  (g, s3) \<Rightarrow> s3\<lparr>bh_tasks := Some g\<rparr>)))"

text \<open>
  \<^verbatim>\<open>_establish_session\<close> as a protocol overrides it: its own actions, the call to the base
  method, its own actions again. With both actions returning, this is the base method.
\<close>

definition establish_session :: "'m env \<Rightarrow> 'm session \<Rightarrow> unit result \<times> 'm session" where
  "establish_session env s =
     (case before_session env of
        Raise e \<Rightarrow> (Raise e, s)
      | Return _ \<Rightarrow>
          (case after_session env of
             Raise e \<Rightarrow> (Raise e, base_establish_session s)
           | Return _ \<Rightarrow> (Return (), base_establish_session s)))"

text \<open>
  \<^verbatim>\<open>_new_session\<close>:
  \<^verbatim>\<open>
    try:
        phase = "connection"
        await self._establish_connection(address, ssl)
        phase = "session"
        await self._establish_session()
    except BaseException as err:
        emsg = f"Failed to establish {phase}"
        await self.disconnect()
        if isinstance(err, asyncio.CancelledError):
            raise
        if isinstance(err, Exception):
            raise ConnectError(emsg, err) from err
        raise
  \<close>
\<close>

definition new_session_failed ::
  "'m env \<Rightarrow> string \<Rightarrow> exn \<Rightarrow> 'm session \<Rightarrow> (unit result \<times> 'm session) option" where
  "new_session_failed env phase err s =
     (case disconnect env s of
        None \<Rightarrow> None
      | Some (Raise e, s1) \<Rightarrow> Some (Raise e, s1)
      | Some (Return _, s1) \<Rightarrow>
          if is_CancelledError err then Some (Raise err, s1)
          else if is_Exception err then Some (Raise (ConnectError (''Failed to establish '' @ phase) err), s1)
          else Some (Raise err, s1))"

definition new_session ::
  "'m env \<Rightarrow> address \<Rightarrow> ssl_context option \<Rightarrow> 'm session \<Rightarrow> (unit result \<times> 'm session) option" where
  "new_session env addr ssl s =
     (case establish_connection env addr ssl s of
        (Raise err, s1) \<Rightarrow> new_session_failed env ''connection'' err s1
      | (Return _, s1) \<Rightarrow>
          (case establish_session env s1 of
             (Raise err, s2) \<Rightarrow> new_session_failed env ''session'' err s2
           | (Return _, s2) \<Rightarrow> Some (Return (), s2)))"

text \<open>\<^verbatim>\<open>connect\<close>: \<^verbatim>\<open>await self._new_session(address, ssl)\<close>\<close>

definition connect ::
  "'m env \<Rightarrow> address \<Rightarrow> ssl_context option \<Rightarrow> 'm session \<Rightarrow> (unit result \<times> 'm session) option" where
  "connect env addr ssl s = new_session env addr ssl s"

section \<open>Auxiliary definitions\<close>

text \<open>
  The state after \<open>n\<close> iterations of a loop body that all returned; \<open>None\<close> if one of them did
  not return.
\<close>

fun iterate :: "nat \<Rightarrow> ('s \<Rightarrow> (unit result \<times> 's) option) \<Rightarrow> 's \<Rightarrow> 's option" where
  "iterate 0 async_fn s = Some s"
| "iterate (Suc n) async_fn s =
     (case async_fn s of
        Some (Return _, s1) \<Rightarrow> iterate n async_fn s1
      | _ \<Rightarrow> None)"

text \<open>
  A concrete environment in which every collaborator succeeds, the session it leads to after
  \<^verbatim>\<open>connect\<close>, and variations: messages waiting in the queue, a send primitive that fails on
  one message, a disconnect task that is done while both loops still run.
\<close>

definition example_writer :: stream_writer where
  "example_writer = \<lparr>limit_low = 16384, limit_high = 65536, closing = False\<rparr>"

definition example_env :: "nat env" where
  "example_env =
     \<lparr>open_connection = (\<lambda>host port ssl. Return (StreamReader, example_writer)),
      open_unix_connection = (\<lambda>path ssl. Return (StreamReader, example_writer)),
      before_session = Return (), after_session = Return (),
      do_recv = (\<lambda>tr. None), on_message = (\<lambda>msg. Return ()),
      do_send = (\<lambda>msg. Return ()), drain = (\<lambda>w. Return ()), wait_closed_outcome = Return ()\<rparr>"

definition example_running :: "nat session" where
  "example_running =
     \<lparr>reader = Some StreamReader, writer = Some example_writer,
      outgoing = Some \<lparr>items = [], unfinished_tasks = 0\<rparr>,
      reader_task = Some 0, writer_task = Some 1, bh_tasks = Some 2, dc_task = None,
      futures = (\<lambda>_. Task BhLoopForever Pending)(2 := Gather 0 1),
      next_future = 3, clock = 0, trace = [OpenConnection]\<rparr>"

definition example_queued :: "nat list \<Rightarrow> nat session" where
  "example_queued msgs = example_running\<lparr>outgoing := Some \<lparr>items = msgs, unfinished_tasks = length msgs\<rparr>\<rparr>"

definition example_send_fails :: "nat \<Rightarrow> nat env" where
  "example_send_fails bad =
     example_env\<lparr>do_send := (\<lambda>msg. if msg = bad then Raise (Exception 1) else Return ())\<rparr>"

definition example_stale :: "nat session" where
  "example_stale =
     example_running\<lparr>dc_task := Some 3, next_future := 4,
                      futures := (futures example_running)(3 := Task BhDisconnect (Done 0 (Raise (Exception 1)))),
                      clock := 1\<rparr>"

text \<open>The calls that the writer loop makes for a list of messages, one iteration each.\<close>

definition send_events :: "'m list \<Rightarrow> 'm event list" where
  "send_events msgs = concat (map (\<lambda>msg. [QueueGet msg, DoSend msg, QueueTaskDone]) msgs)"

text \<open>The session with two messages waiting whose reader loop has just failed.\<close>

definition example_reader_failed :: "nat session" where
  "example_reader_failed = loop_task_exit 0 (Exception 1) (example_queued [7, 8])"

text \<open>
  The sessions that the code builds. Either no session is established (no loop task and no
  gathering future), or the handles are those that \<^verbatim>\<open>_establish_session\<close> made: two distinct
  loop tasks, the future that gathers them, a stream writer, and the queue, whose waiting
  items are the unfinished ones. The disconnect task, when its handle is set, is pending, or
  it is done and both loops have ended. The limits of the writer's transport are ordered.
\<close>

fun is_loop :: "future \<Rightarrow> bool" where
  "is_loop (Task BhLoopForever _) = True"
| "is_loop _ = False"

definition wf_session :: "'m session \<Rightarrow> bool" where
  "wf_session s \<longleftrightarrow>
     (case writer s of None \<Rightarrow> True | Some w \<Rightarrow> limit_low w \<le> limit_high w)
   \<and> (case (reader_task s, writer_task s, bh_tasks s) of
        (None, None, None) \<Rightarrow> True
      | (Some a, Some b, Some g) \<Rightarrow>
          a \<noteq> b \<and> a < next_future s \<and> b < next_future s \<and> g < next_future s
          \<and> futures s g = Gather a b \<and> is_loop (futures s a) \<and> is_loop (futures s b)
          \<and> writer s \<noteq> None
          \<and> (case outgoing s of None \<Rightarrow> False | Some q \<Rightarrow> unfinished_tasks q = length (items q))
      | _ \<Rightarrow> False)
   \<and> (case dc_task s of
        None \<Rightarrow> True
      | Some d \<Rightarrow>
          d < next_future s
          \<and> (case futures s d of
               Task BhDisconnect Pending \<Rightarrow> True
             | Task BhDisconnect (Done k r) \<Rightarrow>
                 (case reader_task s of None \<Rightarrow> True | Some a \<Rightarrow> future_done (futures s) a)
                 \<and> (case writer_task s of None \<Rightarrow> True | Some b \<Rightarrow> future_done (futures s) b)
             | _ \<Rightarrow> False))"

text \<open>
  What awaiting the gathering future gives once both loops have ended: the fault of the loop
  that failed first, or a normal return.
\<close>

definition first_fault :: "'m session \<Rightarrow> unit result" where
  "first_fault s =
     (case bh_tasks s of
        None \<Rightarrow> Return ()
      | Some g \<Rightarrow>
          (case futures s g of
             Gather a b \<Rightarrow>
               (case gather_outcome (child_result (futures s a)) (child_result (futures s b)) of
                  Some (Raise e) \<Rightarrow> Raise e
                | _ \<Rightarrow> Return ())
           | _ \<Rightarrow> Return ()))"

text \<open>
  The graceful part of the teardown raises nothing: the teardown is forced, or there is no
  writer task, or every waiting message is sent and the drain of the flush returns.
\<close>

definition graceful_ok :: "'m env \<Rightarrow> 'm session \<Rightarrow> bool" where
  "graceful_ok env s \<longleftrightarrow>
     error_pathway s \<or> writer_task s = None
   \<or> (\<forall>msg \<in> set (queued s). do_send env msg = Return ())
      \<and> (case writer s of None \<Rightarrow> True
          | Some w \<Rightarrow> drain env (w\<lparr>limit_low := 0, limit_high := 0\<rparr>) = Return ())"

text \<open>
  The result of a loop task after the teardown: the one it had if it was done, a clean
  return (stamped \<open>k\<close>) if it was pending and has been cancelled.
\<close>

fun settled :: "nat \<Rightarrow> (nat \<times> unit result) option \<Rightarrow> (nat \<times> unit result) option" where
  "settled k None = Some (k, Return ())"
| "settled k (Some v) = Some v"

text \<open>
  The outcome of the disconnect task: the stored one if the task is done, otherwise what
  closing the stream gives. The outcome of \<^verbatim>\<open>disconnect\<close>: the exception of the disconnect
  task if it has one, otherwise the first fault of the loops, otherwise a normal return.
\<close>

definition dc_outcome :: "'m env \<Rightarrow> 'm session \<Rightarrow> unit result" where
  "dc_outcome env s =
     (case dc_task s of
        None \<Rightarrow> fst (close_stream env s)
      | Some d \<Rightarrow>
          (case futures s d of
             Task c (Done k r) \<Rightarrow> r
           | _ \<Rightarrow> fst (close_stream env s)))"

definition disconnect_outcome :: "'m env \<Rightarrow> 'm session \<Rightarrow> unit result" where
  "disconnect_outcome env s =
     (case dc_outcome env s of Raise e \<Rightarrow> Raise e | Return _ \<Rightarrow> first_fault s)"

text \<open>
  More concrete inputs: waiting for the stream to close raises, the reader loop of the
  running session has raised, the drain raises, the negotiation of a protocol fails before
  the loops are started and closing the stream raises as well, the negotiation fails after the
  loops are started, and the same with a drain that raises.
\<close>

definition example_close_fails :: "exn \<Rightarrow> nat env" where
  "example_close_fails e = example_env\<lparr>wait_closed_outcome := Raise e\<rparr>"

definition example_reader_raised :: "exn \<Rightarrow> nat session" where
  "example_reader_raised e = loop_task_exit 0 e example_running"

definition example_drain_fails :: "nat env" where
  "example_drain_fails = example_env\<lparr>drain := (\<lambda>w. Raise (Exception 3))\<rparr>"

definition example_negotiation_fails :: "nat env" where
  "example_negotiation_fails =
     example_env\<lparr>before_session := Raise (Exception 1), wait_closed_outcome := Raise (Exception 2)\<rparr>"

definition example_session_fails :: "nat env" where
  "example_session_fails = example_env\<lparr>after_session := Raise (Exception 1)\<rparr>"

definition example_session_and_drain_fail :: "nat env" where
  "example_session_and_drain_fail =
     example_env\<lparr>after_session := Raise (Exception 1), drain := (\<lambda>w. Raise (Exception 3))\<rparr>"

section \<open>Properties of the utilities and of scheduling\<close>

lemma flush_eq:
  assumes "limit_low w \<le> limit_high w"
  shows "flush dr w tr =
           (dr (w\<lparr>limit_low := 0, limit_high := 0\<rparr>), w,
            tr @ [SetWriteBufferLimits 0 0, Drain, SetWriteBufferLimits (limit_high w) (limit_low w)])"
  using assms
  by (cases "dr (w\<lparr>limit_low := 0, limit_high := 0\<rparr>)")
     (simp_all add: flush_def get_write_buffer_limits_def set_write_buffer_limits_def writer_drain_def)

text \<open>
  C10. \<^verbatim>\<open>flush\<close> sets the write-buffer limits to (0, 0) before it drains: the drain sees a
  writer whose two limits are 0. Whatever the drain does, return or raise, its outcome is the
  outcome of \<^verbatim>\<open>flush\<close>, and the writer afterwards is the writer before, with the limits that
  were read at the start. The calls are made in the order: set limits (0, 0), drain, set
  limits (high, low). The hypothesis is the invariant of an asyncio transport, whose limits
  are only ever set through \<^verbatim>\<open>set_write_buffer_limits\<close>.
\<close>

theorem flush_restores_limits:
  assumes "limit_low w \<le> limit_high w"
  shows "flush dr w tr =
           (dr (w\<lparr>limit_low := 0, limit_high := 0\<rparr>), w,
            tr @ [SetWriteBufferLimits 0 0, Drain, SetWriteBufferLimits (limit_high w) (limit_low w)])"
  using assms by (rule flush_eq)

theorem flush_restores_limits_witness:
  "limit_low \<lparr>limit_low = 16384, limit_high = 65536, closing = False\<rparr>
     \<le> limit_high \<lparr>limit_low = 16384, limit_high = 65536, closing = False\<rparr>
   \<and> flush (\<lambda>w. if limit_high w = 0 then Raise (Exception 1) else Return ())
        \<lparr>limit_low = 16384, limit_high = 65536, closing = False\<rparr> ([] :: nat event list)
      = (Raise (Exception 1), \<lparr>limit_low = 16384, limit_high = 65536, closing = False\<rparr>,
         [SetWriteBufferLimits 0 0, Drain, SetWriteBufferLimits 65536 16384])"
  using flush_restores_limits [of "\<lparr>limit_low = 16384, limit_high = 65536, closing = False\<rparr>"
      "\<lambda>w. if limit_high w = 0 then Raise (Exception 1) else Return ()" "[] :: nat event list"]
  by simp

lemma schedule_disconnect_set: "dc_task s \<noteq> None \<Longrightarrow> schedule_disconnect s = s"
  by (cases "dc_task s") (simp_all add: schedule_disconnect_def)

lemma schedule_disconnect_unset:
  "dc_task s = None \<Longrightarrow>
     schedule_disconnect s =
       s\<lparr>futures := (futures s)(next_future s := Task BhDisconnect Pending),
         next_future := Suc (next_future s), dc_task := Some (next_future s)\<rparr>"
  by (simp add: schedule_disconnect_def create_task_def new_future_def)



lemma example_running_connect:
  "connect example_env (UnixPath ''qmp.sock'') None init = Some (Return (), example_running)"
  by (simp add: connect_def new_session_def establish_connection_def do_connect_def
        establish_session_def base_establish_session_def create_task_def new_future_def
        example_env_def example_running_def init_def fun_eq_iff)

section \<open>Properties of cleanup and of the loops\<close>

lemma paranoid_task_erase_cases:
  "paranoid_task_erase fs h =
     (case h of None \<Rightarrow> Return None
      | Some t \<Rightarrow> if future_done fs t then Return None else Raise AssertionError)"
  by (simp add: paranoid_task_erase_def handle_done_def split: option.splits)

text \<open>
  C9. \<^verbatim>\<open>_cleanup\<close> changes a task handle (disconnect, reader, writer, joined pair) only by
  emptying it, and only when the future it names is done; the store of futures is untouched.
  So the handle of a task that is not done is kept. Cleanup returns normally exactly when
  every handle is absent or names a done future, and then the session is idle; otherwise the
  assertion fails, and \<^verbatim>\<open>AssertionError\<close> is what it raises.
\<close>

theorem cleanup_erases_only_done:
  "cleanup s = (r, s') \<Longrightarrow>
     futures s' = futures s
   \<and> (dc_task s' \<noteq> dc_task s \<longrightarrow> dc_task s' = None \<and> handle_done (futures s) (dc_task s))
   \<and> (reader_task s' \<noteq> reader_task s \<longrightarrow> reader_task s' = None \<and> handle_done (futures s) (reader_task s))
   \<and> (writer_task s' \<noteq> writer_task s \<longrightarrow> writer_task s' = None \<and> handle_done (futures s) (writer_task s))
   \<and> (bh_tasks s' \<noteq> bh_tasks s \<longrightarrow> bh_tasks s' = None \<and> handle_done (futures s) (bh_tasks s))
   \<and> (r = Return () \<longleftrightarrow>
        (\<forall>h \<in> {dc_task s, reader_task s, writer_task s, bh_tasks s}. h = None \<or> handle_done (futures s) h))
   \<and> (r = Return () \<longrightarrow> idle s')
   \<and> (r \<noteq> Return () \<longrightarrow> r = Raise AssertionError)"
  by (auto simp: cleanup_def paranoid_task_erase_cases handle_done_def idle_def
           split: option.splits if_splits)

theorem cleanup_erases_only_done_witness:
  "cleanup example_stale = (Raise AssertionError, example_stale\<lparr>dc_task := None\<rparr>)
   \<and> dc_task (example_stale\<lparr>dc_task := None\<rparr>) \<noteq> dc_task example_stale
   \<and> handle_done (futures example_stale) (dc_task example_stale)
   \<and> \<not> handle_done (futures example_stale) (reader_task example_stale)
   \<and> reader_task (example_stale\<lparr>dc_task := None\<rparr>) = reader_task example_stale
   \<and> \<not> idle (example_stale\<lparr>dc_task := None\<rparr>)"
proof -
  have h: "cleanup example_stale = (Raise AssertionError, example_stale\<lparr>dc_task := None\<rparr>)"
    by (simp add: cleanup_def paranoid_task_erase_def handle_done_def future_done_def outcome_def
          example_stale_def example_running_def)
  from cleanup_erases_only_done [OF h] h show ?thesis
    by (simp add: example_stale_def example_running_def idle_def handle_done_def future_done_def outcome_def)
qed

lemma bh_send_message_eq:
  assumes "outgoing s = Some q" and "items q = msg # rest"
    and "length (items q) \<le> unfinished_tasks q"
  shows "bh_send_message env s =
           Some (do_send env msg,
                 s\<lparr>outgoing := Some (q\<lparr>items := rest, unfinished_tasks := unfinished_tasks q - 1\<rparr>),
                   trace := trace s @ [QueueGet msg, DoSend msg, QueueTaskDone]\<rparr>)"
  using assms
  by (cases "do_send env msg")
     (simp_all add: bh_send_message_def send_def outgoing_task_done_def queue_task_done_def)

text \<open>
  C8. One iteration of the writer loop on a queue whose first item is \<open>msg\<close>: the calls are,
  in this order, the \<^verbatim>\<open>get\<close> that yields \<open>msg\<close>, the send of \<open>msg\<close>, and one \<^verbatim>\<open>task_done\<close>;
  the count of unfinished items goes down by exactly one; and the outcome of the iteration is
  the outcome of the send, whether it returned or raised. The hypothesis on the count is the
  invariant of \<^verbatim>\<open>asyncio.Queue\<close>: every waiting item is counted as unfinished.
\<close>

theorem bh_send_message_task_done_once:
  assumes "outgoing s = Some q" and "items q = msg # rest"
    and "length (items q) \<le> unfinished_tasks q"
  shows "bh_send_message env s =
           Some (do_send env msg,
                 s\<lparr>outgoing := Some (q\<lparr>items := rest, unfinished_tasks := unfinished_tasks q - 1\<rparr>),
                   trace := trace s @ [QueueGet msg, DoSend msg, QueueTaskDone]\<rparr>)"
  using assms by (rule bh_send_message_eq)

theorem bh_send_message_task_done_once_witness:
  "outgoing (example_queued [7, 8]) = Some \<lparr>items = [7, 8], unfinished_tasks = 2\<rparr>
   \<and> length (items \<lparr>items = [7, 8 :: nat], unfinished_tasks = 2\<rparr>) \<le> unfinished_tasks \<lparr>items = [7, 8 :: nat], unfinished_tasks = 2\<rparr>
   \<and> bh_send_message (example_env\<lparr>do_send := (\<lambda>msg. Raise (Exception 1))\<rparr>) (example_queued [7, 8]) =
       Some (Raise (Exception 1),
             (example_queued [7, 8])\<lparr>outgoing := Some \<lparr>items = [8], unfinished_tasks = 1\<rparr>,
                                     trace := [OpenConnection, QueueGet 7, DoSend 7, QueueTaskDone]\<rparr>)"
  using bh_send_message_task_done_once [of "example_queued [7, 8]" "\<lparr>items = [7, 8], unfinished_tasks = 2\<rparr>" 7 "[8]"
          "example_env\<lparr>do_send := (\<lambda>msg. Raise (Exception 1))\<rparr>"]
  by (simp add: example_queued_def example_running_def)

lemma while_true_iterate:
  "iterate n f s = Some sn \<Longrightarrow> f sn = Some (Raise e, s1) \<Longrightarrow> while_true f s = Some (e, s1)"
proof (induction n arbitrary: s)
  case 0
  then show ?case by (subst while_true.simps) simp
next
  case (Suc n)
  then show ?case
    by (subst while_true.simps) (auto split: option.splits result.splits)
qed

lemma while_true_suspended:
  "iterate n f s = Some sn \<Longrightarrow> f sn = None \<Longrightarrow> while_true f s = None"
proof (induction n arbitrary: s)
  case 0
  then show ?case by (subst while_true.simps) simp
next
  case (Suc n)
  then show ?case
    by (subst while_true.simps) (auto split: option.splits result.splits)
qed

lemma outcome_finish:
  "futures s t = Task c Pending \<Longrightarrow> outcome (futures (finish t r s)) t = Some r"
  by (simp add: finish_def outcome_def)


lemma outcome_loop_task_exit:
  "futures s t = Task BhLoopForever Pending \<Longrightarrow>
     outcome (futures (loop_task_exit t e s)) t = Some (if is_CancelledError e then Return () else Raise e)"
  by (auto simp: loop_task_exit_def loop_exit_def finish_def outcome_def schedule_disconnect_def
                 create_task_def new_future_def
           split: future.splits status.splits coro.splits)

lemma gather_outcome_Return_left:
  "gather_outcome (Some (k, Return ())) other =
     (case other of Some (j, Raise f) \<Rightarrow> Some (Raise f) | Some (j, Return _) \<Rightarrow> Some (Return ()) | None \<Rightarrow> None)"
  by (auto split: option.splits result.splits)

lemma gather_outcome_Return_right:
  "gather_outcome other (Some (k, Return ())) =
     (case other of Some (j, Raise f) \<Rightarrow> Some (Raise f) | Some (j, Return _) \<Rightarrow> Some (Return ()) | None \<Rightarrow> None)"
  by (auto split: option.splits result.splits)

lemma cancelled_left_child:
  assumes "futures s g = Gather a b" and "futures s a = Task BhLoopForever Pending" and "a \<noteq> b"
  shows "outcome (futures (loop_task_exit a CancelledError s)) g =
           (case child_result (futures s b) of
              Some (j, Raise f) \<Rightarrow> Some (Raise f) | Some (j, Return _) \<Rightarrow> Some (Return ()) | None \<Rightarrow> None)"
proof -
  have "g \<noteq> a" using assms by auto
  then show ?thesis using assms
    by (simp add: loop_task_exit_def loop_exit_def finish_def outcome_def gather_outcome_Return_left)
qed

lemma cancelled_right_child:
  assumes "futures s g = Gather a b" and "futures s b = Task BhLoopForever Pending" and "a \<noteq> b"
  shows "outcome (futures (loop_task_exit b CancelledError s)) g =
           (case child_result (futures s a) of
              Some (j, Raise f) \<Rightarrow> Some (Raise f) | Some (j, Return _) \<Rightarrow> Some (Return ()) | None \<Rightarrow> None)"
proof -
  have "g \<noteq> b" using assms by auto
  then show ?thesis using assms
    by (simp add: loop_task_exit_def loop_exit_def finish_def outcome_def gather_outcome_Return_right)
qed

text \<open>
  C4. The loop run by the reader and by the writer task. If \<open>n\<close> iterations return and the
  next one raises \<open>e\<close>, the loop ends: on \<^verbatim>\<open>CancelledError\<close> it returns, with the state as the
  iteration left it; on any other exception it schedules a disconnect and raises that
  exception. The task that runs the loop is then done with that one outcome. When a loop task
  ends by cancellation, the future that gathers the two loops reports no fault for it: it has
  the other task's fault if that one raised, is successful if the other returned, and is not
  yet done if the other still runs.
\<close>

theorem bh_loop_forever_termination_discipline:
  "(iterate n async_fn s = Some sn \<and> async_fn sn = Some (Raise e, s1) \<longrightarrow>
      bh_loop_forever async_fn s =
        Some (if is_CancelledError e then (Return (), s1) else (Raise e, schedule_disconnect s1)))
   \<and> (futures s t = Task BhLoopForever Pending \<longrightarrow>
        outcome (futures (loop_task_exit t e s)) t = Some (if is_CancelledError e then Return () else Raise e))
   \<and> (futures s g = Gather a b \<and> a \<noteq> b \<and> futures s a = Task BhLoopForever Pending \<longrightarrow>
        outcome (futures (loop_task_exit a CancelledError s)) g =
          (case child_result (futures s b) of
             Some (j, Raise f) \<Rightarrow> Some (Raise f) | Some (j, Return _) \<Rightarrow> Some (Return ()) | None \<Rightarrow> None))
   \<and> (futures s g = Gather a b \<and> a \<noteq> b \<and> futures s b = Task BhLoopForever Pending \<longrightarrow>
        outcome (futures (loop_task_exit b CancelledError s)) g =
          (case child_result (futures s a) of
             Some (j, Raise f) \<Rightarrow> Some (Raise f) | Some (j, Return _) \<Rightarrow> Some (Return ()) | None \<Rightarrow> None))"
proof -
  have "bh_loop_forever async_fn s =
          Some (if is_CancelledError e then (Return (), s1) else (Raise e, schedule_disconnect s1))"
    if "iterate n async_fn s = Some sn" and "async_fn sn = Some (Raise e, s1)"
    using while_true_iterate [OF that] by (simp add: bh_loop_forever_def loop_exit_def)
  then show ?thesis
    using outcome_loop_task_exit cancelled_left_child cancelled_right_child by blast
qed

theorem bh_loop_forever_termination_discipline_witness:
  "iterate 1 (bh_send_message (example_send_fails 8)) (example_queued [7, 8]) =
     Some ((example_queued [7, 8])\<lparr>outgoing := Some \<lparr>items = [8], unfinished_tasks = 1\<rparr>,
                                    trace := [OpenConnection, QueueGet 7, DoSend 7, QueueTaskDone]\<rparr>)
   \<and> bh_loop_forever (bh_send_message (example_send_fails 8)) (example_queued [7, 8]) =
       Some (Raise (Exception 1),
             schedule_disconnect
               ((example_queued [7, 8])\<lparr>outgoing := Some \<lparr>items = [], unfinished_tasks = 0\<rparr>,
                  trace := [OpenConnection, QueueGet 7, DoSend 7, QueueTaskDone,
                            QueueGet 8, DoSend 8, QueueTaskDone]\<rparr>))
   \<and> futures example_running 1 = Task BhLoopForever Pending
   \<and> outcome (futures (loop_task_exit 1 (Exception 1) example_running)) 1 = Some (Raise (Exception 1))
   \<and> futures example_running 2 = Gather 0 1
   \<and> outcome (futures (loop_task_exit 0 CancelledError example_running)) 2 = None
   \<and> outcome (futures (loop_task_exit 1 CancelledError (loop_task_exit 0 (Exception 1) example_running))) 2
       = Some (Raise (Exception 1))"
proof -
  let ?f = "bh_send_message (example_send_fails 8)"
  let ?sn = "(example_queued [7, 8])\<lparr>outgoing := Some \<lparr>items = [8], unfinished_tasks = 1\<rparr>,
                                    trace := [OpenConnection, QueueGet 7, DoSend 7, QueueTaskDone]\<rparr>"
  let ?s1 = "(example_queued [7, 8])\<lparr>outgoing := Some \<lparr>items = [], unfinished_tasks = 0\<rparr>,
                  trace := [OpenConnection, QueueGet 7, DoSend 7, QueueTaskDone,
                            QueueGet 8, DoSend 8, QueueTaskDone]\<rparr>"
  let ?s0 = "loop_task_exit 0 (Exception 1) example_running"
  have a: "iterate 1 ?f (example_queued [7, 8]) = Some ?sn"
    by (simp add: bh_send_message_def send_def outgoing_task_done_def queue_task_done_def
          example_send_fails_def example_env_def example_queued_def example_running_def)
  have b: "?f ?sn = Some (Raise (Exception 1), ?s1)"
    by (simp add: bh_send_message_def send_def outgoing_task_done_def queue_task_done_def
          example_send_fails_def example_env_def example_queued_def example_running_def)
  have c: "futures example_running 1 = Task BhLoopForever Pending"
          "futures example_running 2 = Gather 0 1"
          "futures example_running 0 = Task BhLoopForever Pending"
    by (simp_all add: example_running_def)
  have d: "futures ?s0 2 = Gather 0 1" "futures ?s0 1 = Task BhLoopForever Pending"
          "child_result (futures ?s0 0) = Some (0, Raise (Exception 1))"
    by (simp_all add: loop_task_exit_def loop_exit_def schedule_disconnect_def create_task_def
          new_future_def finish_def example_running_def)
  show ?thesis
    using bh_loop_forever_termination_discipline
            [of 1 ?f "example_queued [7, 8]" ?sn "Exception 1" ?s1 1 2 0 1]
          bh_loop_forever_termination_discipline
            [of 0 ?f "example_running" "example_running" "Exception 1" ?s1 1 2 0 1]
          bh_loop_forever_termination_discipline
            [of 0 ?f ?s0 ?s0 "Exception 1" ?s1 1 2 0 1]
          a b c d
    by simp
qed


section \<open>Properties of the disconnect task\<close>

lemma cancel_and_wait_pending:
  "futures s t = Task BhLoopForever Pending \<Longrightarrow>
     cancel_and_wait t s =
       s\<lparr>futures := (futures s)(t := Task BhLoopForever (Done (clock s) (Return ()))),
         clock := Suc (clock s), trace := trace s @ [Cancel t, Wait t]\<rparr>"
  by (simp add: cancel_and_wait_def loop_task_exit_def loop_exit_def finish_def)

lemma cancel_and_wait_done:
  "futures s t = Task c (Done k r) \<Longrightarrow>
     cancel_and_wait t s = s\<lparr>trace := trace s @ [Cancel t, Wait t]\<rparr>"
  by (cases c) (simp_all add: cancel_and_wait_def)

lemma future_done_pending [simp]: "fs t = Task c Pending \<Longrightarrow> \<not> future_done fs t"
  by (simp add: future_done_def outcome_def)

lemma future_done_Done [simp]: "fs t = Task c (Done k r) \<Longrightarrow> future_done fs t"
  by (simp add: future_done_def outcome_def)

lemma outgoing_join_all_sent:
  assumes "outgoing s = Some q" and "unfinished_tasks q = length (items q)"
    and "writer_task s = Some t" and "futures s t = Task BhLoopForever Pending"
    and "\<forall>msg \<in> set (items q). do_send env msg = Return ()"
  shows "outgoing_join env s =
           Some (Return (), s\<lparr>outgoing := Some (q\<lparr>items := [], unfinished_tasks := 0\<rparr>),
                             trace := trace s @ send_events (items q)\<rparr>)"
  using assms
proof (induction "items q" arbitrary: s q)
  case Nil
  then show ?case
    by (subst outgoing_join.simps) (cases s, simp add: send_events_def)
next
  case (Cons msg rest)
  let ?q1 = "q\<lparr>items := rest, unfinished_tasks := unfinished_tasks q - 1\<rparr>"
  let ?s1 = "s\<lparr>outgoing := Some ?q1, trace := trace s @ [QueueGet msg, DoSend msg, QueueTaskDone]\<rparr>"
  have items: "items q = msg # rest" using Cons.hyps(2) by simp
  have step: "bh_send_message env s = Some (Return (), ?s1)"
    using bh_send_message_eq [of s q msg rest env] Cons.prems items by simp
  have ih: "outgoing_join env ?s1 =
              Some (Return (), ?s1\<lparr>outgoing := Some (?q1\<lparr>items := [], unfinished_tasks := 0\<rparr>),
                                   trace := trace ?s1 @ send_events (items ?q1)\<rparr>)"
    using Cons.prems items by (intro Cons.hyps(1)) simp_all
  show ?case
    using Cons.prems items step ih
    by (subst outgoing_join.simps) (simp add: send_events_def)
qed


lemma loop_task_exit_dc_set:
  "dc_task s \<noteq> None \<Longrightarrow>
     loop_task_exit t e s = finish t (if is_CancelledError e then Return () else Raise e) s"
  by (simp add: loop_task_exit_def loop_exit_def schedule_disconnect_set)

lemma outgoing_join_last_fails:
  assumes "outgoing s = Some q" and "unfinished_tasks q = length (items q)"
    and "writer_task s = Some t" and "futures s t = Task BhLoopForever Pending"
    and "items q = msgs @ [bad]"
    and "\<forall>msg \<in> set msgs. do_send env msg = Return ()"
    and "do_send env bad = Raise e" and "dc_task s \<noteq> None"
  shows "outgoing_join env s =
           Some (Return (),
                 s\<lparr>outgoing := Some (q\<lparr>items := [], unfinished_tasks := 0\<rparr>),
                   futures := (futures s)(t := Task BhLoopForever
                       (Done (clock s) (if is_CancelledError e then Return () else Raise e))),
                   clock := Suc (clock s),
                   trace := trace s @ send_events (items q)\<rparr>)"
  using assms
proof (induction msgs arbitrary: s q)
  case Nil
  let ?q1 = "q\<lparr>items := [], unfinished_tasks := unfinished_tasks q - 1\<rparr>"
  let ?s1 = "s\<lparr>outgoing := Some ?q1, trace := trace s @ [QueueGet bad, DoSend bad, QueueTaskDone]\<rparr>"
  have step: "bh_send_message env s = Some (Raise e, ?s1)"
    using bh_send_message_eq [of s q bad "[]" env] Nil.prems by simp
  have exit: "loop_task_exit t e ?s1 =
                finish t (if is_CancelledError e then Return () else Raise e) ?s1"
    using Nil.prems by (intro loop_task_exit_dc_set) simp
  show ?case
    using Nil.prems step exit
    by (subst outgoing_join.simps, subst outgoing_join.simps)
       (simp add: send_events_def finish_def)
next
  case (Cons msg rest)
  let ?q1 = "q\<lparr>items := rest @ [bad], unfinished_tasks := unfinished_tasks q - 1\<rparr>"
  let ?s1 = "s\<lparr>outgoing := Some ?q1, trace := trace s @ [QueueGet msg, DoSend msg, QueueTaskDone]\<rparr>"
  have step: "bh_send_message env s = Some (Return (), ?s1)"
    using bh_send_message_eq [of s q msg "rest @ [bad]" env] Cons.prems by simp
  have ih: "outgoing_join env ?s1 =
           Some (Return (),
                 ?s1\<lparr>outgoing := Some (?q1\<lparr>items := [], unfinished_tasks := 0\<rparr>),
                   futures := (futures ?s1)(t := Task BhLoopForever
                       (Done (clock ?s1) (if is_CancelledError e then Return () else Raise e))),
                   clock := Suc (clock ?s1),
                   trace := trace ?s1 @ send_events (items ?q1)\<rparr>)"
    using Cons.prems by (intro Cons.IH) simp_all
  show ?case
    using Cons.prems step ih
    by (subst outgoing_join.simps) (simp add: send_events_def)
qed

lemma flush_writer_eq:
  assumes "writer s = Some w" and "limit_low w \<le> limit_high w"
  shows "flush_writer env s =
           (drain env (w\<lparr>limit_low := 0, limit_high := 0\<rparr>),
            s\<lparr>trace := trace s @ [SetWriteBufferLimits 0 0, Drain,
                                  SetWriteBufferLimits (limit_high w) (limit_low w)]\<rparr>)"
  using assms by (cases s) (simp add: flush_writer_def flush_eq)


lemma error_pathway_writer_pending:
  "writer_task s = Some t \<Longrightarrow> futures s t = Task BhLoopForever Pending \<Longrightarrow>
     error_pathway s = handle_done (futures s) (reader_task s)"
  by (simp add: error_pathway_def handle_done_def)

lemma bh_stop_writer_graceful:
  assumes "outgoing s = Some q" and "unfinished_tasks q = length (items q)"
    and "writer_task s = Some t" and "futures s t = Task BhLoopForever Pending"
    and "writer s = Some w" and "limit_low w \<le> limit_high w"
    and "\<forall>msg \<in> set (items q). do_send env msg = Return ()"
  shows "bh_stop_writer env False s =
           (case drain env (w\<lparr>limit_low := 0, limit_high := 0\<rparr>) of
              Return _ \<Rightarrow>
                Some (Return (),
                      s\<lparr>outgoing := Some (q\<lparr>items := [], unfinished_tasks := 0\<rparr>),
                        futures := (futures s)(t := Task BhLoopForever (Done (clock s) (Return ()))),
                        clock := Suc (clock s),
                        trace := trace s @ send_events (items q)
                                 @ [SetWriteBufferLimits 0 0, Drain,
                                    SetWriteBufferLimits (limit_high w) (limit_low w),
                                    Cancel t, Wait t]\<rparr>)
            | Raise e \<Rightarrow>
                Some (Raise e,
                      s\<lparr>outgoing := Some (q\<lparr>items := [], unfinished_tasks := 0\<rparr>),
                        trace := trace s @ send_events (items q)
                                 @ [SetWriteBufferLimits 0 0, Drain,
                                    SetWriteBufferLimits (limit_high w) (limit_low w)]\<rparr>))"
proof -
  let ?s1 = "s\<lparr>outgoing := Some (q\<lparr>items := [], unfinished_tasks := 0\<rparr>),
               trace := trace s @ send_events (items q)\<rparr>"
  have j: "outgoing_join env s = Some (Return (), ?s1)"
    using assms by (intro outgoing_join_all_sent) simp_all
  have f: "flush_writer env ?s1 =
             (drain env (w\<lparr>limit_low := 0, limit_high := 0\<rparr>),
              ?s1\<lparr>trace := trace ?s1 @ [SetWriteBufferLimits 0 0, Drain,
                                  SetWriteBufferLimits (limit_high w) (limit_low w)]\<rparr>)"
    using assms by (intro flush_writer_eq) simp_all
  show ?thesis
    using assms j f
    by (simp add: bh_stop_writer_def cancel_and_wait_pending split: result.splits)
qed

lemma bh_stop_writer_graceful_last_fails:
  assumes "outgoing s = Some q" and "unfinished_tasks q = length (items q)"
    and "writer_task s = Some t" and "futures s t = Task BhLoopForever Pending"
    and "writer s = Some w" and "limit_low w \<le> limit_high w"
    and "items q = msgs @ [bad]"
    and "\<forall>msg \<in> set msgs. do_send env msg = Return ()"
    and "do_send env bad = Raise e" and "\<not> is_CancelledError e" and "dc_task s \<noteq> None"
    and "drain env (w\<lparr>limit_low := 0, limit_high := 0\<rparr>) = Return ()"
  shows "bh_stop_writer env False s =
           Some (Return (),
                 s\<lparr>outgoing := Some (q\<lparr>items := [], unfinished_tasks := 0\<rparr>),
                   futures := (futures s)(t := Task BhLoopForever (Done (clock s) (Raise e))),
                   clock := Suc (clock s),
                   trace := trace s @ send_events (items q)
                            @ [SetWriteBufferLimits 0 0, Drain,
                               SetWriteBufferLimits (limit_high w) (limit_low w),
                               Cancel t, Wait t]\<rparr>)"
proof -
  let ?s1 = "s\<lparr>outgoing := Some (q\<lparr>items := [], unfinished_tasks := 0\<rparr>),
               futures := (futures s)(t := Task BhLoopForever
                       (Done (clock s) (if is_CancelledError e then Return () else Raise e))),
               clock := Suc (clock s),
               trace := trace s @ send_events (items q)\<rparr>"
  have j: "outgoing_join env s = Some (Return (), ?s1)"
    using assms by (intro outgoing_join_last_fails) simp_all
  have f: "flush_writer env ?s1 =
             (drain env (w\<lparr>limit_low := 0, limit_high := 0\<rparr>),
              ?s1\<lparr>trace := trace ?s1 @ [SetWriteBufferLimits 0 0, Drain,
                                  SetWriteBufferLimits (limit_high w) (limit_low w)]\<rparr>)"
    using assms by (intro flush_writer_eq) simp_all
  show ?thesis
    using assms j f
    by (simp add: bh_stop_writer_def cancel_and_wait_done [where c = BhLoopForever])
qed

lemma bh_stop_writer_forced:
  assumes "writer_task s = Some t" and "futures s t = Task BhLoopForever Pending"
  shows "bh_stop_writer env True s =
           Some (Return (),
                 s\<lparr>futures := (futures s)(t := Task BhLoopForever (Done (clock s) (Return ()))),
                   clock := Suc (clock s), trace := trace s @ [Cancel t, Wait t]\<rparr>)"
  using assms by (simp add: bh_stop_writer_def cancel_and_wait_pending)

lemma bh_stop_reader_Return: "fst (bh_stop_reader s) = Return ()"
  by (simp add: bh_stop_reader_def split: option.splits)

text \<open>
  \<^verbatim>\<open>_bh_disconnect\<close> calls \<^verbatim>\<open>_bh_stop_writer\<close> with \<open>force = error_pathway\<close>, which says that
  a loop task is already done. For a session whose writer task is still pending, with its
  queue and its stream writer:
  \<^item> graceful teardown (no loop task done), every send and the drain succeeding: the writer
    loop first sends every waiting message, then the stream is flushed with both limits at 0,
    and only then the writer task is cancelled and waited for; the queue is empty afterwards;
  \<^item> graceful teardown in which the send of the last message raises: the order of the calls
    is the same, the writer task keeps its exception, and \<^verbatim>\<open>_bh_stop_writer\<close> returns normally;
  \<^item> forced teardown (the reader task is done): the writer task is cancelled and waited for
    at once; nothing is sent or flushed and the queue is left as it is.
\<close>

theorem bh_stop_writer_drains_before_cancel:
  assumes "outgoing s = Some q" and "unfinished_tasks q = length (items q)"
    and "writer_task s = Some t" and "futures s t = Task BhLoopForever Pending"
    and "writer s = Some w" and "limit_low w \<le> limit_high w"
  shows
    "(error_pathway s \<longleftrightarrow> handle_done (futures s) (reader_task s))
   \<and> (\<not> error_pathway s \<and> (\<forall>msg \<in> set (items q). do_send env msg = Return ())
        \<and> drain env (w\<lparr>limit_low := 0, limit_high := 0\<rparr>) = Return () \<longrightarrow>
        bh_stop_writer env (error_pathway s) s =
          Some (Return (),
                s\<lparr>outgoing := Some (q\<lparr>items := [], unfinished_tasks := 0\<rparr>),
                  futures := (futures s)(t := Task BhLoopForever (Done (clock s) (Return ()))),
                  clock := Suc (clock s),
                  trace := trace s @ send_events (items q)
                           @ [SetWriteBufferLimits 0 0, Drain,
                              SetWriteBufferLimits (limit_high w) (limit_low w),
                              Cancel t, Wait t]\<rparr>))
   \<and> (\<not> error_pathway s \<and> items q = msgs @ [bad] \<and> (\<forall>msg \<in> set msgs. do_send env msg = Return ())
        \<and> do_send env bad = Raise e \<and> \<not> is_CancelledError e \<and> dc_task s \<noteq> None
        \<and> drain env (w\<lparr>limit_low := 0, limit_high := 0\<rparr>) = Return () \<longrightarrow>
        bh_stop_writer env (error_pathway s) s =
          Some (Return (),
                s\<lparr>outgoing := Some (q\<lparr>items := [], unfinished_tasks := 0\<rparr>),
                  futures := (futures s)(t := Task BhLoopForever (Done (clock s) (Raise e))),
                  clock := Suc (clock s),
                  trace := trace s @ send_events (items q)
                           @ [SetWriteBufferLimits 0 0, Drain,
                              SetWriteBufferLimits (limit_high w) (limit_low w),
                              Cancel t, Wait t]\<rparr>))
   \<and> (error_pathway s \<longrightarrow>
        bh_stop_writer env (error_pathway s) s =
          Some (Return (),
                s\<lparr>futures := (futures s)(t := Task BhLoopForever (Done (clock s) (Return ()))),
                  clock := Suc (clock s), trace := trace s @ [Cancel t, Wait t]\<rparr>))
   \<and> (\<forall>s1. bh_stop_writer env (error_pathway s) s = Some (Return (), s1) \<longrightarrow>
        bh_disconnect env s = Some (close_stream env (snd (bh_stop_reader s1))))"
proof (intro conjI impI allI)
  show "error_pathway s \<longleftrightarrow> handle_done (futures s) (reader_task s)"
    using assms by (simp add: error_pathway_writer_pending)
next
  assume "\<not> error_pathway s \<and> (\<forall>msg \<in> set (items q). do_send env msg = Return ())
        \<and> drain env (w\<lparr>limit_low := 0, limit_high := 0\<rparr>) = Return ()"
  then show "bh_stop_writer env (error_pathway s) s =
          Some (Return (),
                s\<lparr>outgoing := Some (q\<lparr>items := [], unfinished_tasks := 0\<rparr>),
                  futures := (futures s)(t := Task BhLoopForever (Done (clock s) (Return ()))),
                  clock := Suc (clock s),
                  trace := trace s @ send_events (items q)
                           @ [SetWriteBufferLimits 0 0, Drain,
                              SetWriteBufferLimits (limit_high w) (limit_low w),
                              Cancel t, Wait t]\<rparr>)"
    using bh_stop_writer_graceful [OF assms, of env] by simp
next
  assume "\<not> error_pathway s \<and> items q = msgs @ [bad] \<and> (\<forall>msg \<in> set msgs. do_send env msg = Return ())
        \<and> do_send env bad = Raise e \<and> \<not> is_CancelledError e \<and> dc_task s \<noteq> None
        \<and> drain env (w\<lparr>limit_low := 0, limit_high := 0\<rparr>) = Return ()"
  then show "bh_stop_writer env (error_pathway s) s =
          Some (Return (),
                s\<lparr>outgoing := Some (q\<lparr>items := [], unfinished_tasks := 0\<rparr>),
                  futures := (futures s)(t := Task BhLoopForever (Done (clock s) (Raise e))),
                  clock := Suc (clock s),
                  trace := trace s @ send_events (items q)
                           @ [SetWriteBufferLimits 0 0, Drain,
                              SetWriteBufferLimits (limit_high w) (limit_low w),
                              Cancel t, Wait t]\<rparr>)"
    using bh_stop_writer_graceful_last_fails [OF assms, of msgs bad env e] by simp
next
  assume "error_pathway s"
  then show "bh_stop_writer env (error_pathway s) s =
          Some (Return (),
                s\<lparr>futures := (futures s)(t := Task BhLoopForever (Done (clock s) (Return ()))),
                  clock := Suc (clock s), trace := trace s @ [Cancel t, Wait t]\<rparr>)"
    using bh_stop_writer_forced [OF assms(3,4), of env] by simp
next
  fix s1
  assume "bh_stop_writer env (error_pathway s) s = Some (Return (), s1)"
  then show "bh_disconnect env s = Some (close_stream env (snd (bh_stop_reader s1)))"
    using bh_stop_reader_Return [of s1]
    by (cases "bh_stop_reader s1") (simp add: bh_disconnect_def)
qed

lemma example_reader_failed_eq:
  "example_reader_failed =
     (example_queued [7, 8])\<lparr>dc_task := Some 3, next_future := 4, clock := 1,
        futures := (\<lambda>_. Task BhLoopForever Pending)
          (2 := Gather 0 1, 3 := Task BhDisconnect Pending,
           0 := Task BhLoopForever (Done 0 (Raise (Exception 1))))\<rparr>"
  by (simp add: example_reader_failed_def loop_task_exit_def loop_exit_def schedule_disconnect_def
        create_task_def new_future_def finish_def example_queued_def example_running_def)

theorem bh_stop_writer_drains_before_cancel_witness:
  "\<not> error_pathway (example_queued [7, 8])
   \<and> do_send example_env 7 = Return () \<and> do_send example_env 8 = Return ()
   \<and> map_option fst (bh_stop_writer example_env (error_pathway (example_queued [7, 8])) (example_queued [7, 8]))
       = Some (Return ())
   \<and> map_option (trace \<circ> snd)
        (bh_stop_writer example_env (error_pathway (example_queued [7, 8])) (example_queued [7, 8]))
       = Some [OpenConnection, QueueGet 7, DoSend 7, QueueTaskDone, QueueGet 8, DoSend 8, QueueTaskDone,
               SetWriteBufferLimits 0 0, Drain, SetWriteBufferLimits 65536 16384, Cancel 1, Wait 1]
   \<and> do_send (example_send_fails 8) 8 = Raise (Exception 1)
   \<and> dc_task ((example_queued [7, 8])\<lparr>dc_task := Some 3\<rparr>) \<noteq> None
   \<and> map_option fst (bh_stop_writer (example_send_fails 8) False ((example_queued [7, 8])\<lparr>dc_task := Some 3\<rparr>))
       = Some (Return ())
   \<and> error_pathway example_reader_failed
   \<and> map_option (trace \<circ> snd)
        (bh_stop_writer example_env (error_pathway example_reader_failed) example_reader_failed)
       = Some [OpenConnection, Cancel 1, Wait 1]
   \<and> map_option (outgoing \<circ> snd)
        (bh_stop_writer example_env (error_pathway example_reader_failed) example_reader_failed)
       = Some (Some \<lparr>items = [7, 8], unfinished_tasks = 2\<rparr>)"
proof -
  let ?q = "\<lparr>items = [7, 8 :: nat], unfinished_tasks = 2\<rparr>"
  have a: "\<not> error_pathway (example_queued [7, 8])"
          "\<not> error_pathway ((example_queued [7, 8])\<lparr>dc_task := Some 3\<rparr>)"
          "error_pathway example_reader_failed"
    by (simp_all add: example_reader_failed_eq error_pathway_def handle_done_def future_done_def
          outcome_def example_queued_def example_running_def)
  show ?thesis
    using bh_stop_writer_drains_before_cancel
            [of "example_queued [7, 8]" ?q 1 example_writer example_env "[7]" 8 "Exception 1"]
          bh_stop_writer_drains_before_cancel
            [of "(example_queued [7, 8])\<lparr>dc_task := Some 3\<rparr>" ?q 1 example_writer
                "example_send_fails 8" "[7]" 8 "Exception 1"]
          bh_stop_writer_drains_before_cancel
            [of example_reader_failed ?q 1 example_writer example_env "[7]" 8 "Exception 1"]
          a
    by (simp add: example_reader_failed_eq example_queued_def example_running_def example_writer_def
          example_env_def example_send_fails_def send_events_def)
qed

section \<open>Well-formed sessions and the outcome of disconnect\<close>

lemmas teardown_defs = disconnect_def schedule_disconnect_def create_task_def new_future_def
  wait_disconnect_def await_future_def bh_disconnect_def error_pathway_def handle_done_def
  future_done_def outcome_def bh_stop_writer_def bh_stop_reader_def cancel_and_wait_def
  loop_task_exit_def loop_exit_def finish_def flush_writer_def flush_def
  get_write_buffer_limits_def set_write_buffer_limits_def writer_drain_def
  close_stream_def is_closing_def writer_close_def wait_closed_def exception_of_def
  cleanup_def paranoid_task_erase_def

lemmas example_defs = example_env_def example_running_def example_writer_def
  example_close_fails_def example_drain_fails_def example_negotiation_fails_def
  example_session_fails_def

lemma is_Exception_not_cancelled: "is_Exception e \<Longrightarrow> \<not> is_CancelledError e"
  by (cases e) simp_all

lemma is_loop_cases:
  "is_loop f \<Longrightarrow> (f = Task BhLoopForever Pending \<Longrightarrow> P) \<Longrightarrow>
     (\<And>k r. f = Task BhLoopForever (Done k r) \<Longrightarrow> P) \<Longrightarrow> P"
  by (cases f rule: is_loop.cases) (auto, metis status.exhaust)

lemma gather_outcome_settled:
  "gather_outcome (settled j x) (settled k y) =
     Some (case gather_outcome x y of Some (Raise e) \<Rightarrow> Raise e | _ \<Rightarrow> Return ())"
  by (cases "(x, y)" rule: gather_outcome.cases) auto

lemma exception_of_cases:
  "exception_of fs h =
     (case h of
        None \<Rightarrow> Return None
      | Some t \<Rightarrow>
          (case outcome fs t of
             Some (Raise e) \<Rightarrow> if is_CancelledError e then Raise CancelledError else Return (Some e)
           | _ \<Rightarrow> Return None))"
  by (auto simp: exception_of_def future_done_def split: option.splits result.splits)

lemma close_stream_fst_cong:
  assumes "(writer s = None) = (writer s' = None)"
    and "exception_of (futures s) (reader_task s) = exception_of (futures s') (reader_task s')"
    and "exception_of (futures s) (writer_task s) = exception_of (futures s') (writer_task s')"
  shows "fst (close_stream env s) = fst (close_stream env s')"
  using assms
  by (auto simp: close_stream_def wait_closed_def writer_close_def is_closing_def
           split: option.splits result.splits)

lemma close_stream_frame:
  "futures (snd (close_stream env s)) = futures s"
  "reader_task (snd (close_stream env s)) = reader_task s"
  "writer_task (snd (close_stream env s)) = writer_task s"
  "bh_tasks (snd (close_stream env s)) = bh_tasks s"
  "dc_task (snd (close_stream env s)) = dc_task s"
  by (auto simp: close_stream_def wait_closed_def writer_close_def is_closing_def
           split: option.splits result.splits)

lemma cleanup_all_done:
  assumes "dc_task s = None \<or> handle_done (futures s) (dc_task s)"
    and "reader_task s = None \<or> handle_done (futures s) (reader_task s)"
    and "writer_task s = None \<or> handle_done (futures s) (writer_task s)"
    and "bh_tasks s = None \<or> handle_done (futures s) (bh_tasks s)"
  shows "\<exists>s'. cleanup s = (Return (), s') \<and> idle s'"
  using assms
  by (auto simp: cleanup_def paranoid_task_erase_cases handle_done_def idle_def
           split: option.splits if_splits)

lemma bh_stop_reader_pending:
  "reader_task s = Some a \<Longrightarrow> futures s a = Task BhLoopForever Pending \<Longrightarrow>
     bh_stop_reader s =
       (Return (), s\<lparr>futures := (futures s)(a := Task BhLoopForever (Done (clock s) (Return ()))),
                     clock := Suc (clock s), trace := trace s @ [Cancel a, Wait a]\<rparr>)"
  by (simp add: bh_stop_reader_def cancel_and_wait_pending)

lemma bh_stop_reader_done:
  "reader_task s = Some a \<Longrightarrow> futures s a = Task c (Done k r) \<Longrightarrow> bh_stop_reader s = (Return (), s)"
  by (simp add: bh_stop_reader_def)

lemma bh_stop_writer_done:
  "writer_task s = Some b \<Longrightarrow> futures s b = Task c (Done k r) \<Longrightarrow>
     bh_stop_writer env force s = Some (Return (), s)"
  by (simp add: bh_stop_writer_def)

lemma outcome_loop:
  "is_loop (fs t) \<Longrightarrow> outcome fs t = map_option snd (child_result (fs t))"
  by (cases "fs t" rule: is_loop.cases) (auto simp: outcome_def split: status.splits)

lemma exception_of_settled:
  assumes "is_loop (fs t)" and "is_loop (fs' t)"
    and "child_result (fs' t) = settled k (child_result (fs t))"
  shows "exception_of fs' (Some t) = exception_of fs (Some t)"
  using assms
  by (cases "child_result (fs t)")
     (auto simp: exception_of_cases outcome_loop split: result.splits)

lemma bh_disconnect_post:
  assumes "reader_task s = Some a" and "writer_task s = Some b" and "a \<noteq> b"
    and "is_loop (futures s a)" and "is_loop (futures s b)"
    and "writer s = Some w" and "limit_low w \<le> limit_high w"
    and "outgoing s = Some q" and "unfinished_tasks q = length (items q)"
    and "graceful_ok env s"
  shows "\<exists>s3 ka kb. bh_disconnect env s = Some (fst (close_stream env s), s3)
           \<and> reader_task s3 = Some a \<and> writer_task s3 = Some b
           \<and> bh_tasks s3 = bh_tasks s \<and> dc_task s3 = dc_task s
           \<and> (\<forall>x. x \<noteq> a \<longrightarrow> x \<noteq> b \<longrightarrow> futures s3 x = futures s x)
           \<and> is_loop (futures s3 a) \<and> is_loop (futures s3 b)
           \<and> child_result (futures s3 a) = settled ka (child_result (futures s a))
           \<and> child_result (futures s3 b) = settled kb (child_result (futures s b))"
proof -
  define s1 where "s1 = snd (the (bh_stop_writer env (error_pathway s) s))"
  define s2 where "s2 = snd (bh_stop_reader s1)"
  have stops: "bh_stop_writer env (error_pathway s) s = Some (Return (), s1)
      \<and> reader_task s2 = Some a \<and> writer_task s2 = Some b
      \<and> bh_tasks s2 = bh_tasks s \<and> dc_task s2 = dc_task s \<and> writer s2 = writer s
      \<and> (\<forall>x. x \<noteq> a \<longrightarrow> x \<noteq> b \<longrightarrow> futures s2 x = futures s x)
      \<and> is_loop (futures s2 a) \<and> is_loop (futures s2 b)
      \<and> (\<exists>ka. child_result (futures s2 a) = settled ka (child_result (futures s a)))
      \<and> (\<exists>kb. child_result (futures s2 b) = settled kb (child_result (futures s b)))"
  proof -
    have acases: "futures s a = Task BhLoopForever Pending
                  \<or> (\<exists>k r. futures s a = Task BhLoopForever (Done k r))"
      using assms(4) by (auto elim: is_loop_cases)
    have bcases: "futures s b = Task BhLoopForever Pending
                  \<or> (\<exists>k r. futures s b = Task BhLoopForever (Done k r))"
      using assms(5) by (auto elim: is_loop_cases)
    show ?thesis
    proof (cases "futures s b = Task BhLoopForever Pending")
      case bp: True
      show ?thesis
      proof (cases "futures s a = Task BhLoopForever Pending")
        case ap: True
        have ep: "\<not> error_pathway s"
          using assms bp ap by (simp add: error_pathway_def handle_done_def)
        have sends: "\<forall>msg \<in> set (items q). do_send env msg = Return ()"
          and dr: "drain env (w\<lparr>limit_low := 0, limit_high := 0\<rparr>) = Return ()"
          using assms ep by (simp_all add: graceful_ok_def queued_def)
        show ?thesis
          unfolding s2_def s1_def
          using assms bp ap ep dr bh_stop_writer_graceful [OF assms(8,9,2) bp assms(6,7) sends]
          by (auto simp: bh_stop_reader_pending)
      next
        case False
        then obtain k r where ad: "futures s a = Task BhLoopForever (Done k r)"
          using acases by blast
        have ep: "error_pathway s"
          using assms bp ad by (simp add: error_pathway_def handle_done_def)
        show ?thesis
          unfolding s2_def s1_def
          using assms bp ad ep bh_stop_writer_forced [OF assms(2) bp, of env]
          by (auto simp: bh_stop_reader_done)
      qed
    next
      case False
      then obtain k r where bd: "futures s b = Task BhLoopForever (Done k r)"
        using bcases by blast
      have ep: "error_pathway s"
        using assms bd by (simp add: error_pathway_def handle_done_def)
      show ?thesis
      proof (cases "futures s a = Task BhLoopForever Pending")
        case ap: True
        show ?thesis
          unfolding s2_def s1_def
          using assms bd ap ep bh_stop_writer_done [OF assms(2) bd, of env]
          by (auto simp: bh_stop_reader_pending)
      next
        case False
        then obtain k' r' where ad: "futures s a = Task BhLoopForever (Done k' r')"
          using acases by blast
        show ?thesis
          unfolding s2_def s1_def
          using assms bd ad ep bh_stop_writer_done [OF assms(2) bd, of env]
          by (auto simp: bh_stop_reader_done)
      qed
    qed
  qed
  then obtain ka kb where ch:
     "child_result (futures s2 a) = settled ka (child_result (futures s a))"
     "child_result (futures s2 b) = settled kb (child_result (futures s b))"
    by blast
  have eq: "fst (close_stream env s2) = fst (close_stream env s)"
    using stops ch assms
    by (intro close_stream_fst_cong) (simp_all add: exception_of_settled)
  have sw: "bh_stop_writer env (error_pathway s) s = Some (Return (), s1)"
    using stops by blast
  have bd: "bh_disconnect env s = Some (close_stream env s2)"
    using bh_stop_reader_Return [of s1]
    by (cases "bh_stop_reader s1") (simp add: bh_disconnect_def sw s2_def)
  show ?thesis
    using stops ch eq bd
    by (intro exI [of _ "snd (close_stream env s2)"] exI [of _ ka] exI [of _ kb])
       (simp add: close_stream_frame prod_eq_iff)
qed

lemma future_done_loop:
  "is_loop (fs t) \<Longrightarrow> child_result (fs t) = settled k x \<Longrightarrow> future_done fs t"
  by (cases x) (auto simp: future_done_def outcome_loop)

lemma wait_disconnect_session:
  assumes "reader_task s = Some a" and "writer_task s = Some b" and "bh_tasks s = Some g"
    and "a \<noteq> b" and "futures s g = Gather a b"
    and "is_loop (futures s a)" and "is_loop (futures s b)"
    and "writer s = Some w" and "limit_low w \<le> limit_high w"
    and "outgoing s = Some q" and "unfinished_tasks q = length (items q)"
    and "dc_task s = Some d" and "futures s d = Task BhDisconnect Pending"
    and "graceful_ok env s"
  shows "\<exists>s'. wait_disconnect env s =
           Some (case fst (close_stream env s) of Raise e \<Rightarrow> Raise e | Return _ \<Rightarrow> first_fault s, s')
         \<and> idle s'"
proof -
  have ne: "d \<noteq> a" "d \<noteq> b" "g \<noteq> a" "g \<noteq> b" "g \<noteq> d" using assms by auto
  obtain s3 ka kb where s3:
    "bh_disconnect env s = Some (fst (close_stream env s), s3)"
    "reader_task s3 = Some a" "writer_task s3 = Some b"
    "bh_tasks s3 = bh_tasks s" "dc_task s3 = dc_task s"
    "\<forall>x. x \<noteq> a \<longrightarrow> x \<noteq> b \<longrightarrow> futures s3 x = futures s x"
    "is_loop (futures s3 a)" "is_loop (futures s3 b)"
    "child_result (futures s3 a) = settled ka (child_result (futures s a))"
    "child_result (futures s3 b) = settled kb (child_result (futures s b))"
    using bh_disconnect_post [OF assms(1,2,4,6,7,8,9,10,11,14)] by blast
  define r where "r = fst (close_stream env s)"
  define s4 where "s4 = finish d r s3"
  have f3: "futures s3 d = Task BhDisconnect Pending" "futures s3 g = Gather a b"
    using s3(6) ne assms by simp_all
  have s4: "reader_task s4 = Some a" "writer_task s4 = Some b" "bh_tasks s4 = Some g"
    "dc_task s4 = Some d"
    "futures s4 = (futures s3)(d := Task BhDisconnect (Done (clock s3) r))"
    using s3 assms f3 by (simp_all add: s4_def finish_def)
  have aw: "await_future env d s = Some (r, s4)"
    using assms s3(1) by (simp add: await_future_def r_def s4_def)
  have jo: "outcome (futures s4) g = Some (first_fault s)"
    using s4 s3 f3 ne assms
    by (simp add: outcome_def first_fault_def gather_outcome_settled)
  have dn: "handle_done (futures s4) (dc_task s4)" "handle_done (futures s4) (reader_task s4)"
    "handle_done (futures s4) (writer_task s4)" "handle_done (futures s4) (bh_tasks s4)"
    using s4 s3 ne jo
    by (simp_all add: handle_done_def future_done_loop) (simp add: future_done_def)
  obtain s' where cl: "cleanup s4 = (Return (), s')" "idle s'"
    using cleanup_all_done [of s4] dn by blast
  have ag: "await_future env g s4 = Some (first_fault s, s4)"
    using s4 f3 ne jo by (simp add: await_future_def)
  show ?thesis
    using assms aw ag cl s4
    by (intro exI [of _ s']) (simp add: wait_disconnect_def r_def split: result.splits)
qed

lemma wait_disconnect_no_session:
  assumes "reader_task s = None" and "writer_task s = None" and "bh_tasks s = None"
    and "dc_task s = Some d" and "futures s d = Task BhDisconnect Pending"
  shows "\<exists>s'. wait_disconnect env s =
           Some (case fst (close_stream env s) of Raise e \<Rightarrow> Raise e | Return _ \<Rightarrow> first_fault s, s')
         \<and> idle s'"
proof -
  define r where "r = fst (close_stream env s)"
  define s3 where "s3 = snd (close_stream env s)"
  define s4 where "s4 = finish d r s3"
  have bd: "bh_disconnect env s = Some (r, s3)"
    using assms by (simp add: bh_disconnect_def bh_stop_writer_def bh_stop_reader_def r_def s3_def)
  have s4: "reader_task s4 = None" "writer_task s4 = None" "bh_tasks s4 = None"
    "dc_task s4 = Some d"
    "futures s4 = (futures s3)(d := Task BhDisconnect (Done (clock s3) r))"
    using assms by (simp_all add: s4_def s3_def finish_def close_stream_frame)
  have aw: "await_future env d s = Some (r, s4)"
    using assms bd by (simp add: await_future_def s4_def)
  obtain s' where cl: "cleanup s4 = (Return (), s')" "idle s'"
    using cleanup_all_done [of s4] s4 by (auto simp: handle_done_def)
  show ?thesis
    using assms aw cl s4
    by (intro exI [of _ s'])
       (simp add: wait_disconnect_def r_def first_fault_def split: result.splits)
qed

lemma wait_disconnect_dc_done:
  assumes "dc_task s = Some d" and "futures s d = Task BhDisconnect (Done k r)"
    and "(reader_task s = None \<and> writer_task s = None \<and> bh_tasks s = None)
       \<or> (\<exists>a b g. reader_task s = Some a \<and> writer_task s = Some b \<and> bh_tasks s = Some g
             \<and> futures s g = Gather a b \<and> is_loop (futures s a) \<and> is_loop (futures s b)
             \<and> future_done (futures s) a \<and> future_done (futures s) b)"
  shows "\<exists>s'. wait_disconnect env s =
           Some (case r of Raise e \<Rightarrow> Raise e | Return _ \<Rightarrow> first_fault s, s')
         \<and> idle s'"
proof -
  have aw: "await_future env d s = Some (r, s)"
    using assms by (simp add: await_future_def outcome_def)
  have jo: "bh_tasks s = None \<or> (\<exists>g. bh_tasks s = Some g \<and> outcome (futures s) g = Some (first_fault s)
              \<and> await_future env g s = Some (first_fault s, s))"
  proof (cases "bh_tasks s")
    case None
    then show ?thesis by simp
  next
    case (Some g)
    then obtain a b where ab: "reader_task s = Some a" "writer_task s = Some b"
      "futures s g = Gather a b" "is_loop (futures s a)" "is_loop (futures s b)"
      "future_done (futures s) a" "future_done (futures s) b"
      using assms(3) by auto
    have "child_result (futures s a) = settled 0 (child_result (futures s a))"
         "child_result (futures s b) = settled 0 (child_result (futures s b))"
      using ab by (auto simp: future_done_def outcome_loop)
    then have "gather_outcome (child_result (futures s a)) (child_result (futures s b)) =
           Some (case gather_outcome (child_result (futures s a)) (child_result (futures s b)) of
                   Some (Raise e) \<Rightarrow> Raise e | _ \<Rightarrow> Return ())"
      using gather_outcome_settled [of 0 "child_result (futures s a)" 0 "child_result (futures s b)"]
      by simp
    then have "outcome (futures s) g = Some (first_fault s)"
      using Some ab by (simp add: outcome_def first_fault_def)
    then show ?thesis
      using Some ab by (simp add: await_future_def)
  qed
  have dn: "handle_done (futures s) (dc_task s)"
    "reader_task s = None \<or> handle_done (futures s) (reader_task s)"
    "writer_task s = None \<or> handle_done (futures s) (writer_task s)"
    "bh_tasks s = None \<or> handle_done (futures s) (bh_tasks s)"
    using assms jo by (auto simp: handle_done_def future_done_def outcome_def)
  obtain s' where cl: "cleanup s = (Return (), s')" "idle s'"
    using cleanup_all_done [of s] dn by blast
  show ?thesis
    using assms aw jo cl
    by (intro exI [of _ s'])
       (auto simp: wait_disconnect_def first_fault_def split: result.splits)
qed

lemma wait_disconnect_wf:
  assumes "wf_session s" and "dc_task s = Some d" and "graceful_ok env s"
  shows "\<exists>s'. wait_disconnect env s = Some (disconnect_outcome env s, s') \<and> idle s'"
proof -
  have dcase: "futures s d = Task BhDisconnect Pending \<or> (\<exists>k r. futures s d = Task BhDisconnect (Done k r))"
    using assms(1,2)
    by (auto simp: wf_session_def split: future.splits coro.splits status.splits)
  show ?thesis
  proof (cases "futures s d = Task BhDisconnect Pending")
    case True
    then have out: "disconnect_outcome env s =
        (case fst (close_stream env s) of Raise e \<Rightarrow> Raise e | Return _ \<Rightarrow> first_fault s)"
      using assms(2) by (simp add: disconnect_outcome_def dc_outcome_def)
    show ?thesis
    proof (cases "reader_task s")
      case None
      then have "writer_task s = None" "bh_tasks s = None"
        using assms(1) by (auto simp: wf_session_def split: option.splits)
      then show ?thesis
        using wait_disconnect_no_session [OF None _ _ assms(2) True, of env] out by simp
    next
      case (Some a)
      then obtain b g w q where
        "writer_task s = Some b" "bh_tasks s = Some g" "a \<noteq> b" "futures s g = Gather a b"
        "is_loop (futures s a)" "is_loop (futures s b)" "writer s = Some w"
        "limit_low w \<le> limit_high w" "outgoing s = Some q" "unfinished_tasks q = length (items q)"
        using assms(1) by (auto simp: wf_session_def split: option.splits)
      then show ?thesis
        using wait_disconnect_session [OF Some _ _ _ _ _ _ _ _ _ _ assms(2) True assms(3)] out
        by simp
    qed
  next
    case False
    then obtain k r where dn: "futures s d = Task BhDisconnect (Done k r)"
      using dcase by blast
    then have out: "disconnect_outcome env s =
        (case r of Raise e \<Rightarrow> Raise e | Return _ \<Rightarrow> first_fault s)"
      using assms(2) by (simp add: disconnect_outcome_def dc_outcome_def)
    have "(reader_task s = None \<and> writer_task s = None \<and> bh_tasks s = None)
       \<or> (\<exists>a b g. reader_task s = Some a \<and> writer_task s = Some b \<and> bh_tasks s = Some g
             \<and> futures s g = Gather a b \<and> is_loop (futures s a) \<and> is_loop (futures s b)
             \<and> future_done (futures s) a \<and> future_done (futures s) b)"
      using assms(1,2) dn by (auto simp: wf_session_def split: option.splits)
    then show ?thesis
      using wait_disconnect_dc_done [OF assms(2) dn, of env] out by simp
  qed
qed

lemma wf_session_schedule:
  assumes "wf_session s" and "dc_task s = None"
  shows "wf_session (schedule_disconnect s)"
    and "graceful_ok env (schedule_disconnect s) = graceful_ok env s"
    and "disconnect_outcome env (schedule_disconnect s) = disconnect_outcome env s"
proof -
  let ?s0 = "schedule_disconnect s"
  have eq: "?s0 = s\<lparr>futures := (futures s)(next_future s := Task BhDisconnect Pending),
         next_future := Suc (next_future s), dc_task := Some (next_future s)\<rparr>"
    using assms(2) by (rule schedule_disconnect_unset)
  show "wf_session ?s0"
    using assms unfolding eq
    by (auto simp: wf_session_def split: option.splits)
  have lt: "\<And>a. reader_task s = Some a \<Longrightarrow> a \<noteq> next_future s"
           "\<And>b. writer_task s = Some b \<Longrightarrow> b \<noteq> next_future s"
           "\<And>g. bh_tasks s = Some g \<Longrightarrow> g \<noteq> next_future s"
    using assms(1) by (auto simp: wf_session_def split: option.splits)
  have oc: "\<And>t. reader_task s = Some t \<or> writer_task s = Some t \<Longrightarrow>
              outcome (futures ?s0) t = outcome (futures s) t"
    using assms(1) unfolding eq
    by (auto simp: wf_session_def outcome_loop split: option.splits)
  have ex: "exception_of (futures ?s0) (reader_task ?s0) = exception_of (futures s) (reader_task s)"
           "exception_of (futures ?s0) (writer_task ?s0) = exception_of (futures s) (writer_task s)"
    using oc by (auto simp: exception_of_cases eq split: option.splits)
  have hd: "handle_done (futures ?s0) (reader_task ?s0) = handle_done (futures s) (reader_task s)"
           "handle_done (futures ?s0) (writer_task ?s0) = handle_done (futures s) (writer_task s)"
    using oc by (auto simp: handle_done_def future_done_def eq split: option.splits)
  have ep: "error_pathway ?s0 = error_pathway s"
    using hd by (simp add: error_pathway_def)
  show "graceful_ok env ?s0 = graceful_ok env s"
    using ep by (simp add: graceful_ok_def) (simp add: eq queued_def)
  have cs: "fst (close_stream env ?s0) = fst (close_stream env s)"
    using ex by (intro close_stream_fst_cong) (simp_all add: eq)
  have ff: "first_fault ?s0 = first_fault s"
    using assms(1) by (subst eq) (auto simp: first_fault_def wf_session_def split: option.splits)
  have dc0: "dc_task ?s0 = Some (next_future s)"
    "futures ?s0 (next_future s) = Task BhDisconnect Pending"
    by (simp_all add: eq)
  show "disconnect_outcome env ?s0 = disconnect_outcome env s"
    by (simp add: disconnect_outcome_def dc_outcome_def dc0 cs ff assms(2) split: result.splits)
qed

lemma disconnect_wf:
  assumes "wf_session s" and "graceful_ok env s"
  shows "\<exists>s'. disconnect env s = Some (disconnect_outcome env s, s') \<and> idle s'"
proof (cases "dc_task s")
  case None
  have "dc_task (schedule_disconnect s) = Some (next_future s)"
    using None by (simp add: schedule_disconnect_unset)
  then show ?thesis
    using wait_disconnect_wf [of "schedule_disconnect s" "next_future s" env]
          wf_session_schedule(1) [OF assms(1) None]
          wf_session_schedule(2,3) [OF assms(1) None, of env] assms(2)
    by (simp add: disconnect_def)
next
  case (Some d)
  then show ?thesis
    using wait_disconnect_wf [OF assms(1) Some assms(2)]
    by (simp add: disconnect_def schedule_disconnect_set)
qed

text \<open>
  Well-formedness is what the code maintains: it holds when nothing is established, after a
  successful \<^verbatim>\<open>connect\<close> from there, and after a loop of a well-formed session has ended.
\<close>

lemma idle_wf_session: "idle s \<Longrightarrow> wf_session s"
  by (simp add: idle_def wf_session_def)

lemma base_establish_session_eq:
  "base_establish_session s =
     s\<lparr>outgoing := Some \<lparr>items = [], unfinished_tasks = 0\<rparr>,
       reader_task := Some (next_future s), writer_task := Some (Suc (next_future s)),
       bh_tasks := Some (Suc (Suc (next_future s))),
       futures := (futures s)
         (next_future s := Task BhLoopForever Pending,
          Suc (next_future s) := Task BhLoopForever Pending,
          Suc (Suc (next_future s)) := Gather (next_future s) (Suc (next_future s))),
       next_future := Suc (Suc (Suc (next_future s)))\<rparr>"
  by (simp add: base_establish_session_def create_task_def new_future_def)

lemma wf_session_connect:
  assumes "idle s" and "connect env addr ssl s = Some (Return (), s')"
    and "\<forall>w. writer s' = Some w \<longrightarrow> limit_low w \<le> limit_high w"
  shows "wf_session s'"
proof -
  obtain r1 s1 where c: "establish_connection env addr ssl s = (r1, s1)"
    by (cases "establish_connection env addr ssl s")
  obtain r2 s2 where e: "establish_session env s1 = (r2, s2)"
    by (cases "establish_session env s1")
  have nf: "new_session_failed env phase err sf \<noteq> Some (Return (), s')" for phase err sf
    by (auto simp: new_session_failed_def split: option.splits result.splits)
  have r: "r1 = Return ()" "r2 = Return ()" "s' = s2"
    using assms(2) c e nf
    by (auto simp: connect_def new_session_def split: result.splits)
  have s1: "reader_task s1 = None" "writer_task s1 = None" "bh_tasks s1 = None" "dc_task s1 = None"
    "writer s1 \<noteq> None"
    using assms(1) c r(1)
    by (auto simp: establish_connection_def do_connect_def idle_def
             split: result.splits address.splits prod.splits)
  have "s2 = base_establish_session s1"
    using e r(2) by (auto simp: establish_session_def split: result.splits)
  then show ?thesis
    using s1 assms(3) r(3)
    by (auto simp: wf_session_def base_establish_session_eq split: option.splits)
qed

lemma wf_session_loop_task_exit:
  assumes "wf_session s" and "reader_task s = Some t \<or> writer_task s = Some t"
    and "futures s t = Task BhLoopForever Pending"
  shows "wf_session (loop_task_exit t e s)"
proof -
  have dc: "dc_task s = None \<or> (\<exists>d. dc_task s = Some d \<and> d < next_future s
              \<and> futures s d = Task BhDisconnect Pending)"
    using assms
    by (auto simp: wf_session_def split: option.splits future.splits coro.splits status.splits)
  obtain a b g where h: "reader_task s = Some a" "writer_task s = Some b" "bh_tasks s = Some g"
      "a < next_future s" "b < next_future s" "g < next_future s" "futures s g = Gather a b"
    using assms(1,2) by (auto simp: wf_session_def split: option.splits)
  have ne: "t \<noteq> g"
    using h assms(3) by auto
  show ?thesis
  proof (cases "is_CancelledError e \<or> dc_task s \<noteq> None")
    case True
    then have eq: "loop_task_exit t e s =
        s\<lparr>futures := (futures s)(t := Task BhLoopForever (Done (clock s) (fst (loop_exit e s)))),
          clock := Suc (clock s)\<rparr>"
      using assms(3)
      by (auto simp: loop_task_exit_def loop_exit_def finish_def schedule_disconnect_set)
    show ?thesis
      unfolding eq using assms h dc ne
      by (auto simp: wf_session_def split: option.splits)
  next
    case False
    then have eq: "loop_task_exit t e s =
        s\<lparr>futures := (futures s)(next_future s := Task BhDisconnect Pending,
                                    t := Task BhLoopForever (Done (clock s) (Raise e))),
          next_future := Suc (next_future s), dc_task := Some (next_future s),
          clock := Suc (clock s)\<rparr>"
      using assms(2,3) h
      by (auto simp: loop_task_exit_def loop_exit_def finish_def schedule_disconnect_unset)
    show ?thesis
      unfolding eq using assms h ne False
      by (auto simp: wf_session_def split: option.splits)
  qed
qed

lemma example_reader_raised_eq:
  "\<not> is_CancelledError e \<Longrightarrow>
   example_reader_raised e =
     example_running\<lparr>dc_task := Some 3, next_future := 4, clock := 1,
        futures := (futures example_running)
          (3 := Task BhDisconnect Pending, 0 := Task BhLoopForever (Done 0 (Raise e)))\<rparr>"
  by (simp add: example_reader_raised_def loop_task_exit_def loop_exit_def schedule_disconnect_def
        create_task_def new_future_def finish_def example_running_def)

lemma wf_session_example_reader_failed: "wf_session example_reader_failed"
  by (simp add: wf_session_def example_reader_failed_eq example_queued_def example_running_def
        example_writer_def future_done_def outcome_def)

lemma graceful_ok_example_reader_failed: "graceful_ok env example_reader_failed"
  by (simp add: graceful_ok_def error_pathway_def handle_done_def example_reader_failed_eq
        example_queued_def example_running_def future_done_def outcome_def)

lemma disconnect_outcome_example_reader_failed:
  "disconnect_outcome example_env example_reader_failed = Raise (Exception 1)"
  by (simp add: disconnect_outcome_def dc_outcome_def first_fault_def close_stream_def
        wait_closed_def writer_close_def is_closing_def example_reader_failed_eq
        example_queued_def example_defs)

lemma example_reader_failed_exceptions:
  "exception_of (futures example_reader_failed) (reader_task example_reader_failed)
     = Return (Some (Exception 1))"
  "exception_of (futures example_reader_failed) (writer_task example_reader_failed) = Return None"
  by (simp_all add: example_reader_failed_eq exception_of_def future_done_def outcome_def
        example_queued_def example_running_def)

section \<open>Properties of disconnect\<close>

text \<open>
  Both loops of the running session are pending, so no loop has failed; waiting for the stream
  to close raises an exception. \<^verbatim>\<open>_bh_disconnect\<close> re-raises it, the disconnect task ends with
  it, and \<^verbatim>\<open>disconnect\<close> raises it: an exception that no loop has captured. Both loop tasks
  end with a clean return.
\<close>

theorem disconnect_raises_close_fault:
  "disconnect (example_close_fails (Exception 2)) example_running =
     Some (Raise (Exception 2),
           example_running\<lparr>reader := None, writer := None,
              reader_task := None, writer_task := None, bh_tasks := None, dc_task := None,
              futures := (futures example_running)
                (1 := Task BhLoopForever (Done 0 (Return ())),
                 0 := Task BhLoopForever (Done 1 (Return ())),
                 3 := Task BhDisconnect (Done 2 (Raise (Exception 2)))),
              next_future := 4, clock := 3,
              trace := [OpenConnection, SetWriteBufferLimits 0 0, Drain,
                        SetWriteBufferLimits 65536 16384, Cancel 1, Wait 1, Cancel 0, Wait 0,
                        Close, WaitClosed]\<rparr>)"
  by (simp add: teardown_defs example_defs numeral_2_eq_2 numeral_3_eq_3)

text \<open>
  When the drain of the graceful flush raises, \<^verbatim>\<open>_bh_disconnect\<close> ends before it cancels the
  loop tasks. The assertion of \<^verbatim>\<open>_cleanup\<close> on the reader task then fails: \<^verbatim>\<open>disconnect\<close> raises
  \<^verbatim>\<open>AssertionError\<close>, and the handles of the loops and the stream are left set.
\<close>

lemma disconnect_flush_fault_leaves_tasks:
  "map_option fst (disconnect example_drain_fails example_running) = Some (Raise AssertionError)
   \<and> map_option (reader_task \<circ> snd) (disconnect example_drain_fails example_running) = Some (Some 0)
   \<and> map_option (idle \<circ> snd) (disconnect example_drain_fails example_running) = Some False"
  by (simp add: teardown_defs example_defs idle_def)

text \<open>
  C5. \<^verbatim>\<open>_bh_stop_writer\<close> has no handler around \<^verbatim>\<open>join()\<close> and \<^verbatim>\<open>flush\<close>, although
  \<^verbatim>\<open>_bh_disconnect\<close> is documented to cancel all outstanding tasks and \<^verbatim>\<open>_cleanup\<close> asserts
  that they are done.
  In a graceful teardown of the running session with two messages waiting:
  \<^item> when the drain of the flush raises, both messages have been sent and the limits are
    restored, but \<^verbatim>\<open>_bh_stop_writer\<close> raises before \<^verbatim>\<open>cancel()\<close>: the writer task is neither
    cancelled nor waited for and stays pending, and \<^verbatim>\<open>disconnect\<close> ends with the
    \<^verbatim>\<open>AssertionError\<close> of \<^verbatim>\<open>_cleanup\<close>, the handle of the writer task still set;
  \<^item> when the send of the first message raises, the writer task ends with an item left
    unfinished in the queue: \<^verbatim>\<open>join()\<close> never returns, and neither \<^verbatim>\<open>_bh_stop_writer\<close> nor
    \<^verbatim>\<open>disconnect\<close> does.
\<close>

theorem bh_stop_writer_flush_fault_skips_cancel:
  "\<not> error_pathway (example_queued [7, 8])
   \<and> futures (example_queued [7, 8]) 1 = Task BhLoopForever Pending
   \<and> map_option fst (bh_stop_writer example_drain_fails False (example_queued [7, 8]))
       = Some (Raise (Exception 3))
   \<and> map_option (trace \<circ> snd) (bh_stop_writer example_drain_fails False (example_queued [7, 8]))
       = Some [OpenConnection, QueueGet 7, DoSend 7, QueueTaskDone, QueueGet 8, DoSend 8, QueueTaskDone,
               SetWriteBufferLimits 0 0, Drain, SetWriteBufferLimits 65536 16384]
   \<and> map_option (futures \<circ> snd) (bh_stop_writer example_drain_fails False (example_queued [7, 8]))
       = Some (futures (example_queued [7, 8]))
   \<and> map_option fst (disconnect example_drain_fails (example_queued [7, 8]))
       = Some (Raise AssertionError)
   \<and> map_option (writer_task \<circ> snd) (disconnect example_drain_fails (example_queued [7, 8]))
       = Some (Some 1)
   \<and> bh_stop_writer (example_send_fails 7) False (example_queued [7, 8]) = None
   \<and> disconnect (example_send_fails 7) (example_queued [7, 8]) = None"
  by (simp add: teardown_defs example_defs example_queued_def example_send_fails_def
        bh_send_message_def send_def outgoing_task_done_def queue_task_done_def)

text \<open>
  C3. For every call of \<^verbatim>\<open>disconnect\<close> on a well-formed session in which the graceful part of
  the teardown raises nothing: the call returns or raises (it does not stay suspended), the
  cleanup has run, so that the session is fully reset afterwards (no stream, no task handle),
  and what it raises is the exception of the disconnect task if that task failed (a fault of
  closing the stream that \<^verbatim>\<open>_bh_disconnect\<close> did not suppress), otherwise the first failure
  captured from the reader and writer loops, otherwise nothing.
\<close>

theorem disconnect_resets_session:
  assumes "wf_session s" and "graceful_ok env s"
  shows "\<exists>s'. disconnect env s = Some (disconnect_outcome env s, s') \<and> idle s'"
  using assms by (rule disconnect_wf)

theorem disconnect_resets_session_witness:
  "wf_session example_reader_failed
   \<and> graceful_ok example_env example_reader_failed
   \<and> disconnect_outcome example_env example_reader_failed = Raise (Exception 1)
   \<and> map_option fst (disconnect example_env example_reader_failed) = Some (Raise (Exception 1))
   \<and> map_option (idle \<circ> snd) (disconnect example_env example_reader_failed) = Some True"
  using disconnect_resets_session [of example_reader_failed example_env]
        wf_session_example_reader_failed graceful_ok_example_reader_failed [of example_env]
        disconnect_outcome_example_reader_failed
  by auto

section \<open>Properties of closing the stream\<close>

lemma close_stream_fault:
  assumes "writer s = Some w" and "wait_closed_outcome env = Raise err"
    and "exception_of (futures s) (reader_task s) = Return x"
    and "exception_of (futures s) (writer_task s) = Return y"
  shows "fst (close_stream env s) =
           (if is_Exception err \<and> (x = Some err \<or> y = Some err) then Return () else Raise err)"
  using assms
  by (auto simp: close_stream_def wait_closed_def writer_close_def is_closing_def)

lemma close_stream_returns:
  "wait_closed_outcome env = Return () \<Longrightarrow> fst (close_stream env s) = Return ()"
  by (auto simp: close_stream_def wait_closed_def writer_close_def is_closing_def
           split: option.splits)

lemma close_stream_not_Exception:
  "writer s = Some w \<Longrightarrow> wait_closed_outcome env = Raise err \<Longrightarrow> \<not> is_Exception err \<Longrightarrow>
     fst (close_stream env s) = Raise err"
  by (auto simp: close_stream_def wait_closed_def writer_close_def is_closing_def)


lemma reader_fault_reraised:
  assumes "wf_session s" and "reader_task s = Some a" and "writer_task s = Some b"
    and "futures s a = Task BhLoopForever (Done k (Raise F))"
    and "outcome (futures s) b \<in> {None, Some (Return ())}"
    and "dc_task s = Some d" and "futures s d = Task BhDisconnect Pending"
    and "wait_closed_outcome env \<in> {Return (), Raise F}"
  shows "\<exists>s'. disconnect env s = Some (Raise F, s') \<and> idle s'"
proof -
  obtain g w where g: "bh_tasks s = Some g" "futures s g = Gather a b" "is_loop (futures s b)"
      "writer s = Some w"
    using assms(1,2,3) by (auto simp: wf_session_def split: option.splits)
  have gok: "graceful_ok env s"
    using assms(2,4) by (simp add: graceful_ok_def error_pathway_def handle_done_def)
  have "child_result (futures s b) = None \<or> (\<exists>j. child_result (futures s b) = Some (j, Return ()))"
    using assms(5) g(3) by (auto simp: outcome_loop)
  then have ff: "first_fault s = Raise F"
    using g assms(4) by (auto simp: first_fault_def)
  have dco: "dc_outcome env s = fst (close_stream env s)"
    using assms(6,7) by (simp add: dc_outcome_def)
  have "disconnect_outcome env s = Raise F"
  proof (cases "wait_closed_outcome env = Return ()")
    case True
    then show ?thesis
      by (simp add: disconnect_outcome_def dco close_stream_returns ff)
  next
    case False
    then have wc: "wait_closed_outcome env = Raise F"
      using assms(8) by simp
    show ?thesis
    proof (cases "is_Exception F")
      case True
      have "exception_of (futures s) (reader_task s) = Return (Some F)"
        using assms(2,4) True
        by (simp add: exception_of_cases outcome_def is_Exception_not_cancelled)
      then have "fst (close_stream env s) = Return ()"
        using g(4) wc True
        by (auto simp: close_stream_def wait_closed_def writer_close_def is_closing_def)
      then show ?thesis
        by (simp add: disconnect_outcome_def dco ff)
    next
      case False
      then show ?thesis
        using close_stream_not_Exception [OF g(4) wc]
        by (simp add: disconnect_outcome_def dco)
    qed
  qed
  then show ?thesis
    using disconnect_wf [OF assms(1) gok] by simp
qed

text \<open>
  The reader loop has raised an exception that is not an \<^verbatim>\<open>Exception\<close>, and waiting for the
  stream to close raises the same object. The handler \<^verbatim>\<open>except Exception\<close> does not catch it:
  it propagates, although it is identical to the exception captured from the reader task.
\<close>

theorem close_fault_identical_not_suppressed:
  "exception_of (futures (example_reader_raised (BaseException 1)))
       (reader_task (example_reader_raised (BaseException 1))) = Return (Some (BaseException 1))
   \<and> wait_closed_outcome (example_close_fails (BaseException 1)) = Raise (BaseException 1)
   \<and> fst (close_stream (example_close_fails (BaseException 1)) (example_reader_raised (BaseException 1)))
       = Raise (BaseException 1)"
  by (simp add: example_reader_raised_eq close_stream_def wait_closed_def writer_close_def
        is_closing_def exception_of_def future_done_def outcome_def example_defs)

text \<open>
  C6. When waiting for the stream to close raises \<open>err\<close>, and inspecting the two loop tasks
  raises nothing: \<open>err\<close> is suppressed if and only if it is an \<^verbatim>\<open>Exception\<close> and it is the
  exception captured from the reader task or from the writer task; otherwise it propagates.
  An exception that is not an \<^verbatim>\<open>Exception\<close> always propagates. Consequently, in a well-formed
  session whose reader loop has raised \<open>F\<close> and whose writer loop is pending or has returned,
  with the disconnect task scheduled, if closing the stream returns or raises \<open>F\<close> again,
  \<^verbatim>\<open>disconnect\<close> raises \<open>F\<close> and resets the session.
\<close>

theorem close_fault_suppressed_iff_identical_Exception:
  "(writer s = Some w \<and> wait_closed_outcome env = Raise err
      \<and> exception_of (futures s) (reader_task s) = Return x
      \<and> exception_of (futures s) (writer_task s) = Return y \<longrightarrow>
      fst (close_stream env s) =
        (if is_Exception err \<and> (x = Some err \<or> y = Some err) then Return () else Raise err))
   \<and> (wf_session s \<and> reader_task s = Some a \<and> writer_task s = Some b
      \<and> futures s a = Task BhLoopForever (Done k (Raise F))
      \<and> outcome (futures s) b \<in> {None, Some (Return ())}
      \<and> dc_task s = Some d \<and> futures s d = Task BhDisconnect Pending
      \<and> wait_closed_outcome env \<in> {Return (), Raise F} \<longrightarrow>
      (\<exists>s'. disconnect env s = Some (Raise F, s') \<and> idle s'))"
  using close_stream_fault [of s w env err x y] reader_fault_reraised [of s a b k F d env]
  by blast

theorem close_fault_suppressed_iff_identical_Exception_witness:
  "writer example_reader_failed = Some example_writer
   \<and> wait_closed_outcome (example_close_fails (Exception 1)) = Raise (Exception 1)
   \<and> exception_of (futures example_reader_failed) (reader_task example_reader_failed)
       = Return (Some (Exception 1))
   \<and> exception_of (futures example_reader_failed) (writer_task example_reader_failed) = Return None
   \<and> fst (close_stream (example_close_fails (Exception 1)) example_reader_failed) = Return ()
   \<and> fst (close_stream (example_close_fails (Exception 2)) example_reader_failed) = Raise (Exception 2)
   \<and> wf_session example_reader_failed
   \<and> futures example_reader_failed 0 = Task BhLoopForever (Done 0 (Raise (Exception 1)))
   \<and> outcome (futures example_reader_failed) 1 = None
   \<and> map_option fst (disconnect (example_close_fails (Exception 1)) example_reader_failed)
       = Some (Raise (Exception 1))
   \<and> map_option (idle \<circ> snd) (disconnect (example_close_fails (Exception 1)) example_reader_failed)
       = Some True"
proof -
  have a: "writer example_reader_failed = Some example_writer"
    "reader_task example_reader_failed = Some 0" "writer_task example_reader_failed = Some 1"
    "futures example_reader_failed 0 = Task BhLoopForever (Done 0 (Raise (Exception 1)))"
    "outcome (futures example_reader_failed) 1 = None"
    "dc_task example_reader_failed = Some 3"
    "futures example_reader_failed 3 = Task BhDisconnect Pending"
    by (simp_all add: example_reader_failed_eq outcome_def example_queued_def example_running_def)
  have b: "wait_closed_outcome (example_close_fails (Exception 1)) = Raise (Exception 1)"
    "wait_closed_outcome (example_close_fails (Exception 2)) = Raise (Exception 2)"
    by (simp_all add: example_defs)
  show ?thesis
    using close_fault_suppressed_iff_identical_Exception
            [of example_reader_failed example_writer "example_close_fails (Exception 1)"
                "Exception 1" "Some (Exception 1)" None 0 1 0 "Exception 1" 3]
          close_fault_suppressed_iff_identical_Exception
            [of example_reader_failed example_writer "example_close_fails (Exception 2)"
                "Exception 2" "Some (Exception 1)" None 0 1 0 "Exception 1" 3]
          a b example_reader_failed_exceptions wf_session_example_reader_failed
    by auto
qed

section \<open>Properties of connect\<close>



text \<open>
  When the negotiation fails after the loops are started and the drain of the teardown's
  flush raises, \<^verbatim>\<open>_bh_disconnect\<close> ends before it cancels the loop tasks, as above: \<^verbatim>\<open>connect\<close>
  raises \<^verbatim>\<open>AssertionError\<close> and the session is not reset.
\<close>

lemma connect_flush_fault_leaves_tasks:
  "map_option fst (connect example_session_and_drain_fail (UnixPath ''qmp.sock'') None init)
     = Some (Raise AssertionError)
   \<and> map_option (idle \<circ> snd) (connect example_session_and_drain_fail (UnixPath ''qmp.sock'') None init)
     = Some False"
  by (simp add: connect_def new_session_def new_session_failed_def establish_connection_def
        do_connect_def establish_session_def base_establish_session_def teardown_defs
        example_defs example_session_and_drain_fail_def init_def idle_def)



text \<open>
  C1. The docstring of \<^verbatim>\<open>connect\<close> promises \<^verbatim>\<open>StateError\<close> when the session is not idle, but
  \<^verbatim>\<open>connect\<close> only calls \<^verbatim>\<open>_new_session\<close>, and nothing checks the state. On the running
  session, a second \<^verbatim>\<open>connect\<close> returns normally: it has opened a second connection and
  replaced the handles of the running loop tasks and of their gathering future with new ones.
\<close>

theorem connect_while_running_opens_second_connection:
  "map_option fst (connect example_env (UnixPath ''qmp.sock'') None example_running) = Some (Return ())
   \<and> map_option (trace \<circ> snd) (connect example_env (UnixPath ''qmp.sock'') None example_running)
       = Some [OpenConnection, OpenConnection]
   \<and> map_option (reader_task \<circ> snd) (connect example_env (UnixPath ''qmp.sock'') None example_running)
       = Some (Some 3)
   \<and> map_option (writer_task \<circ> snd) (connect example_env (UnixPath ''qmp.sock'') None example_running)
       = Some (Some 4)
   \<and> map_option (bh_tasks \<circ> snd) (connect example_env (UnixPath ''qmp.sock'') None example_running)
       = Some (Some 5)"
  by (simp add: connect_def new_session_def establish_connection_def do_connect_def
        establish_session_def base_establish_session_def create_task_def new_future_def
        example_env_def example_running_def)

end
